theory Spec2Isabelle
  imports Complex_Main "HOL-Library.AList"
begin

section \<open>JavaScript values\<close>

text \<open>
  The engine (\<^verbatim>\<open>src/src/engine.js\<close>) works on the plain objects that \<^verbatim>\<open>yaml.load\<close> and
  \<^verbatim>\<open>JSON.parse\<close> return. A number is an IEEE double: a finite value, \<^verbatim>\<open>NaN\<close> or one of the
  infinities. An object is the list of its own enumerable properties, in the order in
  which \<^verbatim>\<open>Object.keys\<close> and \<^verbatim>\<open>Object.entries\<close> enumerate them; its keys are distinct.
\<close>

datatype jsnum = Finite rat | NaN | PosInfinity | NegInfinity

datatype jsval =
    JUndefined
  | JNull
  | JBool bool
  | JNum jsnum
  | JStr string
  | JArr "jsval list"
  | JObj "(string \<times> jsval) list"

type_synonym 'a object = "(string \<times> 'a) list"

text \<open>Truthiness, as tested by \<^verbatim>\<open>if (x)\<close>, \<^verbatim>\<open>!x\<close>, \<^verbatim>\<open>x && y\<close>, \<^verbatim>\<open>x || y\<close> and \<^verbatim>\<open>x ? y : z\<close>.\<close>

fun truthy :: "jsval \<Rightarrow> bool" where
  "truthy JUndefined = False"
| "truthy JNull = False"
| "truthy (JBool b) = b"
| "truthy (JNum (Finite q)) = (q \<noteq> 0)"
| "truthy (JNum NaN) = False"
| "truthy (JNum PosInfinity) = True"
| "truthy (JNum NegInfinity) = True"
| "truthy (JStr s) = (s \<noteq> [])"
| "truthy (JArr xs) = True"
| "truthy (JObj kvs) = True"

text \<open>\<^verbatim>\<open>a || b\<close>.\<close>

definition jor :: "jsval \<Rightarrow> jsval \<Rightarrow> jsval" where
  "jor a b = (if truthy a then a else b)"

text \<open>
  A string-valued argument or field that may be unset (\<^verbatim>\<open>undefined\<close> or \<^verbatim>\<open>null\<close>) is a
  \<open>string option\<close>. The empty string is falsy, so a test \<^verbatim>\<open>if (s)\<close> passes with the
  string only when it is set and not empty.
\<close>

fun str_truthy :: "string option \<Rightarrow> string option" where
  "str_truthy None = None"
| "str_truthy (Some s) = (if s = [] then None else Some s)"

text \<open>
  Reading \<^verbatim>\<open>obj[key]\<close> with a computed key consults the object's own properties and then
  its prototype. The objects built by \<^verbatim>\<open>yaml.load\<close> and \<^verbatim>\<open>JSON.parse\<close> inherit from
  \<^verbatim>\<open>Object.prototype\<close>, so a key that names one of its members reads as a built-in function
  or object (a truthy value without any of the fields the engine reads) when the object
  has no own property of that name.
\<close>

definition object_prototype_names :: "string list" where
  "object_prototype_names =
     [''constructor'', ''__defineGetter__'', ''__defineSetter__'', ''hasOwnProperty'',
      ''__lookupGetter__'', ''__lookupSetter__'', ''isPrototypeOf'', ''propertyIsEnumerable'',
      ''toString'', ''valueOf'', ''__proto__'', ''toLocaleString'']"

datatype 'a property = Own 'a | Inherited | Absent

definition get_prop :: "'a object \<Rightarrow> string \<Rightarrow> 'a property" where
  "get_prop obj key =
     (case map_of obj key of
        Some v \<Rightarrow> Own v
      | None \<Rightarrow> if key \<in> set object_prototype_names then Inherited else Absent)"

text \<open>
  The value of an entry of \<open>intents\<close>, \<open>services\<close>, \<open>states\<close> or \<open>desired.services\<close> is an
  object or \<^verbatim>\<open>null\<close>, which is what \<^verbatim>\<open>yaml.load\<close> gives for an entry with an empty body: it
  is an option, \<open>None\<close> for \<^verbatim>\<open>null\<close>. (Scalars and arrays in the place of these objects are
  outside the model.) Truthiness of \<^verbatim>\<open>obj[key]\<close> for such an object: an own object and an
  inherited built-in are truthy, \<^verbatim>\<open>null\<close> and \<^verbatim>\<open>undefined\<close> are not.
\<close>

fun truthy_prop :: "'a option property \<Rightarrow> bool" where
  "truthy_prop (Own (Some v)) = True"
| "truthy_prop (Own None) = False"
| "truthy_prop Inherited = True"
| "truthy_prop Absent = False"

text \<open>
  Reading a field with a fixed name (\<^verbatim>\<open>config.lockfile\<close>, \<^verbatim>\<open>state.type\<close>, ...) from a
  configuration object. None of the fixed names the engine reads is a member of
  \<^verbatim>\<open>Object.prototype\<close>, so a missing field is \<^verbatim>\<open>undefined\<close>.
\<close>

definition field :: "jsval object \<Rightarrow> string \<Rightarrow> jsval" where
  "field obj name = (case map_of obj name of Some v \<Rightarrow> v | None \<Rightarrow> JUndefined)"

text \<open>\<^verbatim>\<open>typeof v === "string"\<close>.\<close>

definition is_string :: "jsval \<Rightarrow> bool" where
  "is_string v = (case v of JStr s \<Rightarrow> True | _ \<Rightarrow> False)"

section \<open>Errors\<close>

text \<open>
  An exception thrown by the runtime or a library call (\<^verbatim>\<open>path\<close>, \<^verbatim>\<open>fs\<close>, \<^verbatim>\<open>net\<close>, \<^verbatim>\<open>Number\<close>,
  \<^verbatim>\<open>JSON\<close>), as opposed to the errors the engine throws itself.
\<close>

datatype js_exception = TypeError | RangeError | SyntaxError | SystemError string

datatype error =
    IntentNotFound string                 \<comment> \<open>\<^verbatim>\<open>Intent not found: <name>\<close>\<close>
  | NoIntents                             \<comment> \<open>\<^verbatim>\<open>No intents defined in manifest\<close>\<close>
  | IntentHasNoDesiredServices string     \<comment> \<open>\<^verbatim>\<open>Intent has no desired services: <name>\<close>\<close>
  | ServiceNotFound string                \<comment> \<open>\<^verbatim>\<open>Service not found: <service>\<close>\<close>
  | StateNotFound string string           \<comment> \<open>\<^verbatim>\<open>State not found: <service>.<state>\<close>\<close>
  | InvalidStateFile string               \<comment> \<open>\<^verbatim>\<open>Invalid state file: <path>\<close>\<close>
  | Runtime js_exception

section \<open>The manifest\<close>

text \<open>
  The manifest has the shape the README's manifest schema gives it; what the engine
  treats as optional is an option. \<open>requires_services\<close> is
  \<^verbatim>\<open>service.requires && service.requires.services\<close> and \<open>consumes_env\<close> is
  \<^verbatim>\<open>service.consumes && service.consumes.env\<close> (\<open>None\<close> when unset); a binding of
  \<^verbatim>\<open>consumes.env\<close> is any value. \<open>desired_services\<close> is \<^verbatim>\<open>intent.desired.services\<close> (\<open>None\<close>
  when \<^verbatim>\<open>intent.desired\<close> or \<^verbatim>\<open>intent.desired.services\<close> is unset); each of its entries is
  \<^verbatim>\<open>null\<close> or an object, which holds \<^verbatim>\<open>desired.states\<close> when that is an array. A state
  definition is an open configuration object.
\<close>

type_synonym statedef = "jsval object"

record service =
  root :: jsval
  requires_services :: "string list option"
  consumes_env :: "jsval object option"
  states :: "statedef option object option"

record intent =
  desired_services :: "string list option option object option"

record manifest =
  services :: "service option object"
  intents :: "intent option object"
  defaultIntent :: "string option"

subsection \<open>\<^verbatim>\<open>resolveIntentName\<close> (engine.js 30-48)\<close>

definition resolveIntentName :: "manifest \<Rightarrow> string option \<Rightarrow> error + string" where
  "resolveIntentName manifest intentName =
     (let names = map fst (intents manifest) in
      case str_truthy intentName of
        Some name \<Rightarrow>
          if \<not> truthy_prop (get_prop (intents manifest) name)
          then Inl (IntentNotFound name)
          else Inr name
      | None \<Rightarrow>
          (let fallback =
             (if truthy_prop (get_prop (intents manifest) ''feature'') then Inr ''feature''
              else (case names of n # _ \<Rightarrow> Inr n | [] \<Rightarrow> Inl NoIntents))
           in case str_truthy (defaultIntent manifest) of
                Some d \<Rightarrow>
                  if truthy_prop (get_prop (intents manifest) d) then Inr d else fallback
              | None \<Rightarrow> fallback))"

text \<open>
  The resolution as the specification words it: a supplied name is selected iff it is
  declared; with no name, the \<open>defaultIntent\<close> field, else \<open>feature\<close>, else the first
  declared intent.
\<close>

definition spec_resolveIntentName :: "manifest \<Rightarrow> string option \<Rightarrow> error + string" where
  "spec_resolveIntentName manifest intentName =
     (case intentName of
        Some name \<Rightarrow>
          if name \<in> fst ` set (intents manifest) then Inr name else Inl (IntentNotFound name)
      | None \<Rightarrow>
          (case defaultIntent manifest of
             Some d \<Rightarrow> Inr d
           | None \<Rightarrow>
               if ''feature'' \<in> fst ` set (intents manifest) then Inr ''feature''
               else (case intents manifest of (n, _) # _ \<Rightarrow> Inr n | [] \<Rightarrow> Inl NoIntents)))"

subsection \<open>\<^verbatim>\<open>buildPlan\<close> (engine.js 50-77)\<close>

record planitem =
  serviceName :: string
  stateId :: string
  type :: jsval
  config :: statedef
  service :: service

text \<open>
  \<^verbatim>\<open>service.states && service.states[stateId]\<close>, followed by the test
  \<^verbatim>\<open>!state || !state.type\<close>: the state definition when it is there and has a truthy type.
  A service read from the prototype has no \<^verbatim>\<open>states\<close>, and a state read from the prototype
  has no \<^verbatim>\<open>type\<close>.
\<close>

definition resolveState :: "service option property \<Rightarrow> string \<Rightarrow> (service \<times> statedef) option" where
  "resolveState svc sid =
     (case svc of
        Own (Some s) \<Rightarrow>
          (case states s of
             None \<Rightarrow> None
           | Some sts \<Rightarrow>
               (case get_prop sts sid of
                  Own (Some st) \<Rightarrow> if truthy (field st ''type'') then Some (s, st) else None
                | Own None \<Rightarrow> None
                | Inherited \<Rightarrow> None
                | Absent \<Rightarrow> None))
      | Own None \<Rightarrow> None
      | Inherited \<Rightarrow> None
      | Absent \<Rightarrow> None)"

text \<open>The inner loop over \<open>stateIds\<close>; a throw leaves the loop and discards the plan.\<close>

fun planStates :: "string \<Rightarrow> service option property \<Rightarrow> string list \<Rightarrow> error + planitem list" where
  "planStates name svc [] = Inr []"
| "planStates name svc (sid # rest) =
     (case resolveState svc sid of
        None \<Rightarrow> Inl (StateNotFound name sid)
      | Some (s, st) \<Rightarrow>
          (case planStates name svc rest of
             Inl e \<Rightarrow> Inl e
           | Inr items \<Rightarrow>
               Inr (\<lparr>serviceName = name, stateId = sid, type = field st ''type'',
                     config = st, service = s\<rparr> # items)))"

text \<open>
  The outer loop over \<^verbatim>\<open>Object.entries(intent.desired.services)\<close>. Reading
  \<^verbatim>\<open>desired.states\<close> of an entry that is \<^verbatim>\<open>null\<close> is a \<^verbatim>\<open>TypeError\<close>.
\<close>

fun planServices :: "manifest \<Rightarrow> string list option option object \<Rightarrow> error + planitem list" where
  "planServices manifest [] = Inr []"
| "planServices manifest ((name, desired) # rest) =
     (let svc = get_prop (services manifest) name in
      if \<not> truthy_prop svc then Inl (ServiceNotFound name)
      else
        (case desired of
           None \<Rightarrow> Inl (Runtime TypeError)
         | Some entry \<Rightarrow>
             (let stateIds = (case entry of Some ids \<Rightarrow> ids | None \<Rightarrow> []) in
              case planStates name svc stateIds of
                Inl e \<Rightarrow> Inl e
              | Inr items \<Rightarrow>
                  (case planServices manifest rest of
                     Inl e \<Rightarrow> Inl e
                   | Inr others \<Rightarrow> Inr (items @ others)))))"

definition buildPlan :: "manifest \<Rightarrow> string \<Rightarrow> error + planitem list" where
  "buildPlan manifest intentName =
     (case get_prop (intents manifest) intentName of
        Own (Some intent) \<Rightarrow>
          (case desired_services intent of
             None \<Rightarrow> Inl (IntentHasNoDesiredServices intentName)
           | Some entries \<Rightarrow> planServices manifest entries)
      | Own None \<Rightarrow> Inl (IntentHasNoDesiredServices intentName)
      | Inherited \<Rightarrow> Inl (IntentHasNoDesiredServices intentName)
      | Absent \<Rightarrow> Inl (IntentHasNoDesiredServices intentName))"

text \<open>
  The error of one entry of \<^verbatim>\<open>intent.desired.services\<close>, taken by itself: none when its
  service is there and every state it lists resolves.
\<close>

definition entryError :: "manifest \<Rightarrow> string \<times> string list option option \<Rightarrow> error option" where
  "entryError manifest entry =
     (if \<not> truthy_prop (get_prop (services manifest) (fst entry))
      then Some (ServiceNotFound (fst entry))
      else (case snd entry of
              None \<Rightarrow> Some (Runtime TypeError)
            | Some desired \<Rightarrow>
                (case find (\<lambda>sid. resolveState (get_prop (services manifest) (fst entry)) sid = None)
                        (case desired of Some ids \<Rightarrow> ids | None \<Rightarrow> []) of
                   Some sid \<Rightarrow> Some (StateNotFound (fst entry) sid)
                 | None \<Rightarrow> None)))"

text \<open>
  The (service, state) pairs an intent asks for, in the order of the plan: the entries of
  \<^verbatim>\<open>intent.desired.services\<close> in turn, each with its state ids.
\<close>

definition desired_pairs :: "string list option option object \<Rightarrow> (string \<times> string) list" where
  "desired_pairs entries =
     concat (map (\<lambda>(name, desired).
                    map (Pair name) (case desired of Some (Some ids) \<Rightarrow> ids | _ \<Rightarrow> []))
               entries)"

subsection \<open>\<^verbatim>\<open>buildGraph\<close> and \<^verbatim>\<open>addEdge\<close> (engine.js 79-106)\<close>

record edge =
  edge_from :: string
  edge_to :: string
  reason :: string

text \<open>
  \<^verbatim>\<open>addEdge\<close> mutates the array \<open>edges\<close> and the set \<open>seen\<close>; here it takes and returns
  the pair.
\<close>

definition addEdge :: "edge list \<times> string set \<Rightarrow> string \<Rightarrow> string \<Rightarrow> string \<Rightarrow> edge list \<times> string set" where
  "addEdge st frm to rsn =
     (let key = frm @ ''->'' @ to @ '':'' @ rsn in
      if key \<in> snd st then st
      else (fst st @ [\<lparr>edge_from = frm, edge_to = to, reason = rsn\<rparr>], insert key (snd st)))"

text \<open>
  \<^verbatim>\<open>binding && binding.from\<close>: a falsy binding itself, the \<open>from\<close> field of an object, and
  \<^verbatim>\<open>undefined\<close> for any other truthy value (no primitive, array or prototype has a member
  \<open>from\<close>).
\<close>

definition binding_from :: "jsval \<Rightarrow> jsval" where
  "binding_from binding =
     (if \<not> truthy binding then binding
      else (case binding of JObj kvs \<Rightarrow> field kvs ''from'' | _ \<Rightarrow> JUndefined))"

text \<open>The body of the loop over \<^verbatim>\<open>Object.entries(consumes)\<close>.\<close>

definition consumeEdge :: "string \<Rightarrow> edge list \<times> string set \<Rightarrow> string \<times> jsval \<Rightarrow> edge list \<times> string set" where
  "consumeEdge name st entry =
     (case binding_from (snd entry) of
        JStr frm \<Rightarrow>
          if CHR ''.'' \<in> set frm
          then addEdge st name (takeWhile (\<lambda>c. c \<noteq> CHR ''.'') frm) (''consumes '' @ fst entry)
          else st
      | _ \<Rightarrow> st)"

text \<open>
  The body of the loop over \<^verbatim>\<open>Object.entries(manifest.services)\<close>. Reading
  \<^verbatim>\<open>service.requires\<close> of a service that is \<^verbatim>\<open>null\<close> is a \<^verbatim>\<open>TypeError\<close>.
\<close>

definition serviceEdges :: "edge list \<times> string set \<Rightarrow> string \<times> service option \<Rightarrow> error + edge list \<times> string set" where
  "serviceEdges st entry =
     (case snd entry of
        None \<Rightarrow> Inl (Runtime TypeError)
      | Some svc \<Rightarrow>
          (let name = fst entry;
               requires = (case requires_services svc of Some rs \<Rightarrow> rs | None \<Rightarrow> []);
               st1 = foldl (\<lambda>st' required. addEdge st' name required ''requires'') st requires;
               consumes = (case consumes_env svc of Some env \<Rightarrow> env | None \<Rightarrow> [])
           in Inr (foldl (consumeEdge name) st1 consumes)))"

fun graphServices :: "edge list \<times> string set \<Rightarrow> service option object \<Rightarrow> error + edge list \<times> string set" where
  "graphServices st [] = Inr st"
| "graphServices st (entry # rest) =
     (case serviceEdges st entry of
        Inl e \<Rightarrow> Inl e
      | Inr st' \<Rightarrow> graphServices st' rest)"

definition buildGraph :: "manifest \<Rightarrow> error + edge list" where
  "buildGraph manifest =
     (case graphServices ([], {}) (services manifest) of
        Inl e \<Rightarrow> Inl e
      | Inr st \<Rightarrow> Inr (fst st))"

text \<open>
  The key \<^verbatim>\<open>`${from}->${to}:${reason}`\<close> of an edge, and the edges the loops of
  \<open>buildGraph\<close> hand to \<open>addEdge\<close>, in order: for each service its \<open>requires\<close> edges, then
  one edge for each binding of \<open>consumes\<close> whose source is a string with a dot.
\<close>

definition edge_key :: "edge \<Rightarrow> string" where
  "edge_key e = edge_from e @ ''->'' @ edge_to e @ '':'' @ reason e"

definition consumeCandidates :: "string \<Rightarrow> string \<times> jsval \<Rightarrow> edge list" where
  "consumeCandidates name entry =
     (case binding_from (snd entry) of
        JStr frm \<Rightarrow>
          if CHR ''.'' \<in> set frm
          then [\<lparr>edge_from = name, edge_to = takeWhile (\<lambda>c. c \<noteq> CHR ''.'') frm,
                 reason = ''consumes '' @ fst entry\<rparr>]
          else []
      | _ \<Rightarrow> [])"

definition serviceCandidates :: "string \<times> service option \<Rightarrow> edge list" where
  "serviceCandidates entry =
     (case snd entry of
        None \<Rightarrow> []
      | Some svc \<Rightarrow>
          map (\<lambda>required. \<lparr>edge_from = fst entry, edge_to = required, reason = ''requires''\<rparr>)
            (case requires_services svc of Some rs \<Rightarrow> rs | None \<Rightarrow> [])
          @ concat (map (consumeCandidates (fst entry))
              (case consumes_env svc of Some env \<Rightarrow> env | None \<Rightarrow> [])))"

definition candidateEdges :: "manifest \<Rightarrow> edge list" where
  "candidateEdges manifest = concat (map serviceCandidates (services manifest))"

definition offer :: "edge list \<times> string set \<Rightarrow> edge \<Rightarrow> edge list \<times> string set" where
  "offer st e = addEdge st (edge_from e) (edge_to e) (reason e)"

section \<open>The world outside the engine\<close>

text \<open>
  The file system maps an absolute path to a file with its content or to a directory
  (permissions are not modelled). The functions of \<^verbatim>\<open>path\<close>, the digest, \<^verbatim>\<open>Number\<close>,
  \<^verbatim>\<open>Number.prototype.toString\<close> and the socket are parameters. \<open>ancestors\<close> lists the directories above an absolute path,
  the nearest first (for \<open>/repo/.nexus\<close>: \<open>/repo\<close>, then \<open>/\<close>). \<open>socket_connect\<close> gives the
  first event the socket emits for a host, a port and a timeout (\<^verbatim>\<open>connect\<close>, \<^verbatim>\<open>error\<close> or
  \<^verbatim>\<open>timeout\<close>), or the exception \<^verbatim>\<open>socket.connect\<close> throws.
\<close>

datatype node = File string | Directory

datatype sock_event = Connected | SocketError | SocketTimeout

record world =
  fs :: "string \<Rightarrow> node option"
  cwd :: string
  resolve :: "string \<Rightarrow> string \<Rightarrow> string"
  join :: "string \<Rightarrow> string \<Rightarrow> string"
  ancestors :: "string \<Rightarrow> string list"
  sha256_hex :: "string \<Rightarrow> string"
  Number :: "jsval \<Rightarrow> js_exception + jsnum"
  Number_toString :: "rat \<Rightarrow> string"
  socket_connect :: "jsval \<Rightarrow> rat \<Rightarrow> nat \<Rightarrow> js_exception + sock_event"

text \<open>
  \<^verbatim>\<open>path.resolve(base, p)\<close> and \<^verbatim>\<open>path.join(base, p)\<close> for a string \<open>base\<close>: a \<^verbatim>\<open>TypeError\<close>
  unless \<open>p\<close> is a string.
\<close>

definition path_resolve :: "world \<Rightarrow> string \<Rightarrow> jsval \<Rightarrow> error + string" where
  "path_resolve w base p = (case p of JStr s \<Rightarrow> Inr (resolve w base s) | _ \<Rightarrow> Inl (Runtime TypeError))"

definition path_join :: "world \<Rightarrow> string \<Rightarrow> jsval \<Rightarrow> error + string" where
  "path_join w base p = (case p of JStr s \<Rightarrow> Inr (join w base s) | _ \<Rightarrow> Inl (Runtime TypeError))"

definition existsSync :: "world \<Rightarrow> string \<Rightarrow> bool" where
  "existsSync w p = (fs w p \<noteq> None)"

definition readFileSync :: "world \<Rightarrow> string \<Rightarrow> error + string" where
  "readFileSync w p =
     (case fs w p of
        Some (File content) \<Rightarrow> Inr content
      | Some Directory \<Rightarrow> Inl (Runtime (SystemError ''EISDIR''))
      | None \<Rightarrow> Inl (Runtime (SystemError ''ENOENT'')))"

text \<open>\<^verbatim>\<open>path.dirname\<close> of an absolute path: the nearest ancestor, and the root for the root.\<close>

definition dirname :: "world \<Rightarrow> string \<Rightarrow> string" where
  "dirname w p = (case ancestors w p of [] \<Rightarrow> p | parent # _ \<Rightarrow> parent)"

definition is_file :: "world \<Rightarrow> string \<Rightarrow> bool" where
  "is_file w p = (case fs w p of Some (File content) \<Rightarrow> True | _ \<Rightarrow> False)"

text \<open>
  \<^verbatim>\<open>fs.mkdirSync(dir, { recursive: true })\<close>: fails with \<^verbatim>\<open>EEXIST\<close> when \<open>dir\<close> is a file and
  with \<^verbatim>\<open>ENOTDIR\<close> when a path above it is a file; else \<open>dir\<close> and every path above it are
  directories.
\<close>

definition mkdirSync :: "world \<Rightarrow> string \<Rightarrow> error + world" where
  "mkdirSync w dir =
     (if is_file w dir then Inl (Runtime (SystemError ''EEXIST''))
      else if list_ex (is_file w) (ancestors w dir) then Inl (Runtime (SystemError ''ENOTDIR''))
      else Inr (w\<lparr>fs := (\<lambda>p. if p \<in> set (dir # ancestors w dir) then Some Directory
                             else fs w p)\<rparr>))"

text \<open>
  \<^verbatim>\<open>fs.writeFileSync(path, data)\<close>: a \<^verbatim>\<open>TypeError\<close> when the data is \<^verbatim>\<open>undefined\<close>, a failure
  on a directory or without a parent directory, else the file has the data.
\<close>

definition writeFileSync :: "world \<Rightarrow> string \<Rightarrow> string option \<Rightarrow> error + world" where
  "writeFileSync w p data =
     (case data of
        None \<Rightarrow> Inl (Runtime TypeError)
      | Some content \<Rightarrow>
          if fs w p = Some Directory then Inl (Runtime (SystemError ''EISDIR''))
          else (case fs w (dirname w p) of
                  None \<Rightarrow> Inl (Runtime (SystemError ''ENOENT''))
                | Some (File other) \<Rightarrow> Inl (Runtime (SystemError ''ENOTDIR''))
                | Some Directory \<Rightarrow> Inr (w\<lparr>fs := (fs w)(p \<mapsto> File content)\<rparr>)))"

section \<open>Observation\<close>

record observation =
  status :: string
  evidence :: jsval

subsection \<open>\<^verbatim>\<open>hashFile\<close> (engine.js 242-245) and \<^verbatim>\<open>checkPort\<close> (engine.js 251-268)\<close>

definition hashFile :: "world \<Rightarrow> string \<Rightarrow> error + string" where
  "hashFile w filePath =
     (case readFileSync w filePath of
        Inl e \<Rightarrow> Inl e
      | Inr content \<Rightarrow> Inr (''sha256:'' @ sha256_hex w content))"

text \<open>
  The promise resolves with the first event (the flag \<open>settled\<close> drops the later ones):
  \<open>true\<close> on \<^verbatim>\<open>connect\<close>, \<open>false\<close> on \<^verbatim>\<open>error\<close> and \<^verbatim>\<open>timeout\<close>. An exception thrown by
  \<^verbatim>\<open>socket.connect\<close> inside the executor rejects it.
\<close>

definition checkPort :: "world \<Rightarrow> jsval \<Rightarrow> rat \<Rightarrow> nat \<Rightarrow> error + bool" where
  "checkPort w host port timeoutMs =
     (case socket_connect w host port timeoutMs of
        Inl x \<Rightarrow> Inl (Runtime x)
      | Inr Connected \<Rightarrow> Inr True
      | Inr SocketError \<Rightarrow> Inr False
      | Inr SocketTimeout \<Rightarrow> Inr False)"

subsection \<open>\<^verbatim>\<open>observeState\<close> (engine.js 117-187)\<close>

definition observeState :: "world \<Rightarrow> planitem \<Rightarrow> string \<Rightarrow> error + observation" where
  "observeState w item projectRoot =
     (let serviceRoot = jor (root (service item)) (JStr ''.'') in
      case path_resolve w projectRoot serviceRoot of
        Inl e \<Rightarrow> Inl e
      | Inr resolvedRoot \<Rightarrow>
      if type item = JStr ''package.deps'' then
        (let lockfile = jor (field (config item) ''lockfile'') (JStr ''package-lock.json'') in
         case path_join w resolvedRoot lockfile of
           Inl e \<Rightarrow> Inl e
         | Inr lockfilePath \<Rightarrow>
             if \<not> existsSync w lockfilePath then
               Inr \<lparr>status = ''missing'',
                    evidence = JObj [(''lockfile'', JStr lockfilePath), (''exists'', JBool False)]\<rparr>
             else
               (case hashFile w lockfilePath of
                  Inl e \<Rightarrow> Inl e
                | Inr checksum \<Rightarrow>
                    Inr \<lparr>status = ''healthy'',
                         evidence = JObj [(''lockfile'', JStr lockfilePath),
                                          (''checksum'', JStr checksum)]\<rparr>))
      else if type item = JStr ''db.schema'' then
        (let source = field (config item) ''source'' in
         if \<not> truthy source then
           Inr \<lparr>status = ''unknown'',
                evidence = JObj [(''reason'', JStr ''no source defined'')]\<rparr>
         else
           (case path_resolve w resolvedRoot source of
              Inl e \<Rightarrow> Inl e
            | Inr schemaPath \<Rightarrow>
                if existsSync w schemaPath then
                  (case hashFile w schemaPath of
                     Inl e \<Rightarrow> Inl e
                   | Inr checksum \<Rightarrow>
                       Inr \<lparr>status = ''healthy'',
                            evidence = JObj [(''source'', JStr schemaPath), (''exists'', JBool True),
                                             (''checksum'', JStr checksum)]\<rparr>)
                else
                  Inr \<lparr>status = ''missing'',
                       evidence = JObj [(''source'', JStr schemaPath), (''exists'', JBool False),
                                        (''checksum'', JUndefined)]\<rparr>))
      else if type item = JStr ''env.export'' then
        (let keys = (case field (config item) ''keys'' of JArr ks \<Rightarrow> ks | _ \<Rightarrow> []) in
         Inr \<lparr>status = (if length keys > 0 then ''healthy'' else ''missing''),
              evidence = JObj [(''keys'', JArr keys)]\<rparr>)
      else if type item = JStr ''env.inherit'' then
        (let frm = field (config item) ''from'' in
         Inr \<lparr>status = (if truthy frm then ''healthy'' else ''missing''),
              evidence = JObj [(''from'', frm)]\<rparr>)
      else if type item = JStr ''process.http'' then
        (case Number w (field (config item) ''port'') of
           Inl x \<Rightarrow> Inl (Runtime x)
         | Inr port \<Rightarrow>
             (let host = jor (field (config item) ''host'') (JStr ''127.0.0.1'') in
              case port of
                Finite p \<Rightarrow>
                  (case checkPort w host p 300 of
                     Inl e \<Rightarrow> Inl e
                   | Inr isOpen \<Rightarrow>
                       Inr \<lparr>status = (if isOpen then ''healthy'' else ''missing''),
                            evidence = JObj [(''host'', host), (''port'', JNum port),
                                             (''open'', JBool isOpen)]\<rparr>)
              | _ \<Rightarrow>
                  Inr \<lparr>status = ''unknown'',
                       evidence = JObj [(''reason'', JStr ''invalid port'')]\<rparr>))
      else Inr \<lparr>status = ''unknown'', evidence = JObj [(''type'', type item)]\<rparr>)"

subsection \<open>\<^verbatim>\<open>validatePlan\<close> (engine.js 108-115)\<close>

record result = planitem +
  observation :: observation

text \<open>
  The loop awaits one observation after the other and appends \<^verbatim>\<open>{ ...item, observation }\<close>;
  an exception of \<open>observeState\<close> ends it.
\<close>

fun validatePlan :: "world \<Rightarrow> planitem list \<Rightarrow> string \<Rightarrow> error + result list" where
  "validatePlan w [] projectRoot = Inr []"
| "validatePlan w (item # plan) projectRoot =
     (case observeState w item projectRoot of
        Inl e \<Rightarrow> Inl e
      | Inr obs \<Rightarrow>
          (case validatePlan w plan projectRoot of
             Inl e \<Rightarrow> Inl e
           | Inr results \<Rightarrow>
               Inr (\<lparr>serviceName = serviceName item, stateId = stateId item, type = type item,
                     config = config item, service = service item, observation = obs\<rparr>
                    # results)))"

text \<open>The key \<^verbatim>\<open>`${result.serviceName}:${result.stateId}`\<close> of a result.\<close>

definition result_key :: "'a planitem_scheme \<Rightarrow> string" where
  "result_key r = serviceName r @ '':'' @ stateId r"

section \<open>JSON\<close>

text \<open>
  \<^verbatim>\<open>JSON.stringify(value, null, 2)\<close> and \<^verbatim>\<open>JSON.parse(text)\<close>, on the values above. The
  characters of a string are the code units below 256. A number that is a safe integer
  (at most \<open>2\<^sup>5\<^sup>3 - 1\<close> in absolute value) is written with its decimal digits and read
  back from them; the text of any other finite number is that of \<^verbatim>\<open>Number.prototype.toString\<close>,
  and the value of any other number literal is that of \<^verbatim>\<open>Number\<close>, both parameters of the
  world.
\<close>

subsection \<open>\<^verbatim>\<open>JSON.stringify\<close>\<close>

definition digit_char :: "nat \<Rightarrow> char" where
  "digit_char d = char_of (48 + d)"

function digits :: "nat \<Rightarrow> string" where
  "digits n = (if n < 10 then [digit_char n] else digits (n div 10) @ [digit_char (n mod 10)])"
  by pat_completeness auto

termination digits
  by (relation "measure id") auto

declare digits.simps [simp del]

definition safe_integer :: "rat \<Rightarrow> bool" where
  "safe_integer q \<longleftrightarrow> of_int \<lfloor>q\<rfloor> = q \<and> \<bar>q\<bar> \<le> 9007199254740991"

definition number_text :: "world \<Rightarrow> rat \<Rightarrow> string" where
  "number_text w q =
     (if safe_integer q then (if q < 0 then ''-'' else []) @ digits (nat \<bar>\<lfloor>q\<rfloor>\<bar>)
      else Number_toString w q)"

definition hex_char :: "nat \<Rightarrow> char" where
  "hex_char d = (if d < 10 then char_of (48 + d) else char_of (87 + d))"

text \<open>
  \<^verbatim>\<open>QuoteJSONString\<close>: the quote and the backslash are escaped, the control characters are
  written as \<^verbatim>\<open>\b\<close>, \<^verbatim>\<open>\f\<close>, \<^verbatim>\<open>\n\<close>, \<^verbatim>\<open>\r\<close>, \<^verbatim>\<open>\t\<close> or \<^verbatim>\<open>\u00XX\<close>, and every other character
  stands for itself.
\<close>

definition escape :: "char \<Rightarrow> string" where
  "escape c =
     (if c = CHR 0x22 then [CHR 0x5C, CHR 0x22]
      else if c = CHR 0x5C then [CHR 0x5C, CHR 0x5C]
      else if c = CHR 0x08 then [CHR 0x5C, CHR ''b'']
      else if c = CHR 0x0C then [CHR 0x5C, CHR ''f'']
      else if c = CHR 0x0A then [CHR 0x5C, CHR ''n'']
      else if c = CHR 0x0D then [CHR 0x5C, CHR ''r'']
      else if c = CHR 0x09 then [CHR 0x5C, CHR ''t'']
      else if of_char c < (32 :: nat)
        then [CHR 0x5C, CHR ''u'', CHR ''0'', CHR ''0'',
              hex_char (of_char c div 16), hex_char (of_char c mod 16)]
      else [c])"

definition QuoteJSONString :: "string \<Rightarrow> string" where
  "QuoteJSONString s = CHR 0x22 # concat (map escape s) @ [CHR 0x22]"

text \<open>
  A line break followed by the indentation of depth \<open>k\<close> (the gap is two spaces), and the
  text of an array or an object from the texts of its elements or properties.
\<close>

definition newline :: "nat \<Rightarrow> string" where
  "newline k = CHR 0x0A # replicate (2 * k) CHR '' ''"

fun separated :: "string \<Rightarrow> string list \<Rightarrow> string" where
  "separated sep [] = []"
| "separated sep [x] = x"
| "separated sep (x # y # ys) = x @ sep @ separated sep (y # ys)"

definition wrap :: "char \<Rightarrow> char \<Rightarrow> nat \<Rightarrow> string list \<Rightarrow> string" where
  "wrap opening closing k items =
     (if items = [] then [opening, closing]
      else opening # newline (Suc k) @ separated (CHR '','' # newline (Suc k)) items
             @ newline k @ [closing])"

text \<open>
  \<^verbatim>\<open>SerializeJSONProperty\<close> at depth \<open>k\<close>: \<open>None\<close> is \<^verbatim>\<open>undefined\<close>. \<^verbatim>\<open>NaN\<close> and the infinities
  are written \<^verbatim>\<open>null\<close>; an element of an array that is \<^verbatim>\<open>undefined\<close> is written \<^verbatim>\<open>null\<close>; a
  property whose value is \<^verbatim>\<open>undefined\<close> is left out.
\<close>

fun serialize :: "world \<Rightarrow> nat \<Rightarrow> jsval \<Rightarrow> string option" where
  "serialize w k JUndefined = None"
| "serialize w k JNull = Some ''null''"
| "serialize w k (JBool b) = Some (if b then ''true'' else ''false'')"
| "serialize w k (JNum n) = Some (case n of Finite q \<Rightarrow> number_text w q | _ \<Rightarrow> ''null'')"
| "serialize w k (JStr s) = Some (QuoteJSONString s)"
| "serialize w k (JArr xs) =
     Some (wrap CHR ''['' CHR '']'' k
       (map (\<lambda>x. case serialize w (Suc k) x of None \<Rightarrow> ''null'' | Some t \<Rightarrow> t) xs))"
| "serialize w k (JObj kvs) =
     Some (wrap CHR ''{'' CHR ''}'' k
       (concat (map (\<lambda>kv. case serialize w (Suc k) (snd kv) of
                             None \<Rightarrow> []
                           | Some t \<Rightarrow> [QuoteJSONString (fst kv) @ '': '' @ t]) kvs)))"

definition JSON_stringify :: "world \<Rightarrow> jsval \<Rightarrow> string option" where
  "JSON_stringify w v = serialize w 0 v"

subsection \<open>\<^verbatim>\<open>JSON.parse\<close>\<close>

definition is_ws :: "char \<Rightarrow> bool" where
  "is_ws c \<longleftrightarrow> c = CHR '' '' \<or> c = CHR 0x09 \<or> c = CHR 0x0A \<or> c = CHR 0x0D"

definition skip_ws :: "string \<Rightarrow> string" where
  "skip_ws s = dropWhile is_ws s"

definition is_digit :: "char \<Rightarrow> bool" where
  "is_digit c \<longleftrightarrow> (48 :: nat) \<le> of_char c \<and> of_char c \<le> (57 :: nat)"

definition digits_value :: "string \<Rightarrow> nat" where
  "digits_value ds = foldl (\<lambda>n c. 10 * n + (of_char c - 48)) 0 ds"

definition hex_value :: "char \<Rightarrow> nat option" where
  "hex_value c =
     (let n = of_char c in
      if 48 \<le> n \<and> n \<le> 57 then Some (n - 48)
      else if 97 \<le> n \<and> n \<le> 102 then Some (n - 87)
      else if 65 \<le> n \<and> n \<le> 70 then Some (n - 55)
      else None)"

text \<open>The character of a one-letter escape.\<close>

definition unescape :: "char \<Rightarrow> char option" where
  "unescape e =
     (if e = CHR 0x22 then Some (CHR 0x22)
      else if e = CHR 0x5C then Some (CHR 0x5C)
      else if e = CHR ''/'' then Some (CHR ''/'')
      else if e = CHR ''b'' then Some (CHR 0x08)
      else if e = CHR ''f'' then Some (CHR 0x0C)
      else if e = CHR ''n'' then Some (CHR 0x0A)
      else if e = CHR ''r'' then Some (CHR 0x0D)
      else if e = CHR ''t'' then Some (CHR 0x09)
      else None)"

text \<open>
  The characters of a string literal after its opening quote, up to the closing quote:
  the string and the rest of the text. A control character that is not escaped is a
  syntax error. An escape \<^verbatim>\<open>\uXXXX\<close> of a code unit above 255 has no character here.
\<close>

fun parse_chars :: "string \<Rightarrow> (string \<times> string) option" where
  "parse_chars [] = None"
| "parse_chars (c # cs) =
     (if c = CHR 0x22 then Some ([], cs)
      else if c = CHR 0x5C then
        (case cs of
           [] \<Rightarrow> None
         | e # es \<Rightarrow>
             if e = CHR ''u'' then
               (case es of
                  h1 # h2 # h3 # h4 # rest \<Rightarrow>
                    (case (hex_value h1, hex_value h2, hex_value h3, hex_value h4) of
                       (Some a, Some b, Some c, Some d) \<Rightarrow>
                         if a = 0 \<and> b = 0 then
                           (case parse_chars rest of
                              None \<Rightarrow> None
                            | Some (s, r) \<Rightarrow> Some (char_of (16 * c + d) # s, r))
                         else None
                     | _ \<Rightarrow> None)
                | _ \<Rightarrow> None)
             else
               (case unescape e of
                  None \<Rightarrow> None
                | Some ch \<Rightarrow>
                    (case parse_chars es of
                       None \<Rightarrow> None
                     | Some (s, r) \<Rightarrow> Some (ch # s, r))))
      else if of_char c < (32 :: nat) then None
      else
        (case parse_chars cs of
           None \<Rightarrow> None
         | Some (s, r) \<Rightarrow> Some (c # s, r)))"

text \<open>
  A number literal at the head of the text: the literal, whether it has neither a
  fraction nor an exponent, and the rest of the text.
\<close>

definition scan_fraction :: "string \<Rightarrow> (string \<times> string) option" where
  "scan_fraction s =
     (case s of
        c # cs \<Rightarrow>
          if c = CHR ''.'' then
            (if takeWhile is_digit cs = [] then None
             else Some (c # takeWhile is_digit cs, dropWhile is_digit cs))
          else Some ([], s)
      | [] \<Rightarrow> Some ([], s))"

definition scan_exponent :: "string \<Rightarrow> (string \<times> string) option" where
  "scan_exponent s =
     (case s of
        c # cs \<Rightarrow>
          if c = CHR ''e'' \<or> c = CHR ''E'' then
            (let sign = (case cs of
                           d # ds \<Rightarrow> if d = CHR ''+'' \<or> d = CHR ''-'' then [d] else []
                         | [] \<Rightarrow> []);
                 ds = drop (length sign) cs
             in if takeWhile is_digit ds = [] then None
                else Some (c # sign @ takeWhile is_digit ds, dropWhile is_digit ds))
          else Some ([], s)
      | [] \<Rightarrow> Some ([], s))"

definition scan_number :: "string \<Rightarrow> (string \<times> bool \<times> string) option" where
  "scan_number s =
     (let sign = (case s of c # cs \<Rightarrow> if c = CHR ''-'' then [c] else [] | [] \<Rightarrow> []);
          s1 = drop (length sign) s;
          whole = takeWhile is_digit s1
      in if whole = [] \<or> (hd whole = CHR ''0'' \<and> length whole > 1) then None
         else
           (case scan_fraction (dropWhile is_digit s1) of
              None \<Rightarrow> None
            | Some (fraction, s2) \<Rightarrow>
                (case scan_exponent s2 of
                   None \<Rightarrow> None
                 | Some (exponent, s3) \<Rightarrow>
                     Some (sign @ whole @ fraction @ exponent,
                           fraction = [] \<and> exponent = [], s3))))"

definition parse_number :: "world \<Rightarrow> string \<Rightarrow> (jsval \<times> string) option" where
  "parse_number w s =
     (case scan_number s of
        None \<Rightarrow> None
      | Some (literal, integral, rest) \<Rightarrow>
          (let negative = (hd literal = CHR ''-'');
               n = digits_value (if negative then tl literal else literal)
           in if integral \<and> n \<le> 9007199254740991
              then Some (JNum (Finite (if negative then - of_nat n else of_nat n)), rest)
              else (case Number w (JStr literal) of
                      Inl x \<Rightarrow> None
                    | Inr v \<Rightarrow> Some (JNum v, rest))))"

text \<open>
  \<^verbatim>\<open>CreateDataProperty\<close> on the object under construction: the value of a key that is there
  is replaced; a new key that is an array index goes before the first key that is not
  an array index or is a larger one; any other new key goes last. A key is an array
  index when it is the decimal text of a number below \<open>2\<^sup>3\<^sup>2 - 1\<close>.
\<close>

definition array_index :: "string \<Rightarrow> nat option" where
  "array_index key =
     (if key \<noteq> [] \<and> list_all is_digit key \<and> (hd key = CHR ''0'' \<longrightarrow> length key = 1)
         \<and> digits_value key < 4294967295
      then Some (digits_value key) else None)"

fun insert_index :: "nat \<Rightarrow> string \<Rightarrow> jsval \<Rightarrow> jsval object \<Rightarrow> jsval object" where
  "insert_index i key v [] = [(key, v)]"
| "insert_index i key v (p # ps) =
     (case array_index (fst p) of
        None \<Rightarrow> (key, v) # p # ps
      | Some j \<Rightarrow> if i < j then (key, v) # p # ps else p # insert_index i key v ps)"

definition CreateDataProperty :: "jsval object \<Rightarrow> string \<times> jsval \<Rightarrow> jsval object" where
  "CreateDataProperty obj p =
     (if fst p \<in> fst ` set obj then AList.update (fst p) (snd p) obj
      else (case array_index (fst p) of
              None \<Rightarrow> obj @ [p]
            | Some i \<Rightarrow> insert_index i (fst p) (snd p) obj))"

text \<open>
  The parser, by recursive descent. The first argument bounds the number of nested
  calls; \<open>parse_value\<close> reads a value, \<open>parse_elements\<close> the elements of an array after its
  opening bracket, \<open>parse_members\<close> the properties of an object after its opening brace.
  Each returns what it has read and the rest of the text.
\<close>

fun parse_value :: "world \<Rightarrow> nat \<Rightarrow> string \<Rightarrow> (jsval \<times> string) option"
  and parse_elements :: "world \<Rightarrow> nat \<Rightarrow> string \<Rightarrow> (jsval list \<times> string) option"
  and parse_members :: "world \<Rightarrow> nat \<Rightarrow> string \<Rightarrow> ((string \<times> jsval) list \<times> string) option"
where
  "parse_value w 0 s = None"
| "parse_value w (Suc n) s =
     (case skip_ws s of
        [] \<Rightarrow> None
      | c # cs \<Rightarrow>
          if c = CHR ''['' then
            (case skip_ws cs of
               [] \<Rightarrow> None
             | d # ds \<Rightarrow>
                 if d = CHR '']'' then Some (JArr [], ds)
                 else (case parse_elements w n cs of
                         None \<Rightarrow> None
                       | Some (vs, r) \<Rightarrow> Some (JArr vs, r)))
          else if c = CHR ''{'' then
            (case skip_ws cs of
               [] \<Rightarrow> None
             | d # ds \<Rightarrow>
                 if d = CHR ''}'' then Some (JObj [], ds)
                 else (case parse_members w n cs of
                         None \<Rightarrow> None
                       | Some (ps, r) \<Rightarrow> Some (JObj (foldl CreateDataProperty [] ps), r)))
          else if c = CHR 0x22 then
            (case parse_chars cs of
               None \<Rightarrow> None
             | Some (str, r) \<Rightarrow> Some (JStr str, r))
          else if take 4 (c # cs) = ''null'' then Some (JNull, drop 4 (c # cs))
          else if take 4 (c # cs) = ''true'' then Some (JBool True, drop 4 (c # cs))
          else if take 5 (c # cs) = ''false'' then Some (JBool False, drop 5 (c # cs))
          else parse_number w (c # cs))"
| "parse_elements w 0 s = None"
| "parse_elements w (Suc n) s =
     (case parse_value w n s of
        None \<Rightarrow> None
      | Some (v, r) \<Rightarrow>
          (case skip_ws r of
             [] \<Rightarrow> None
           | c # cs \<Rightarrow>
               if c = CHR '']'' then Some ([v], cs)
               else if c = CHR '','' then
                 (case parse_elements w n cs of
                    None \<Rightarrow> None
                  | Some (vs, r') \<Rightarrow> Some (v # vs, r'))
               else None))"
| "parse_members w 0 s = None"
| "parse_members w (Suc n) s =
     (case skip_ws s of
        [] \<Rightarrow> None
      | q # qs \<Rightarrow>
          if q \<noteq> CHR 0x22 then None
          else
            (case parse_chars qs of
               None \<Rightarrow> None
             | Some (key, r) \<Rightarrow>
                 (case skip_ws r of
                    [] \<Rightarrow> None
                  | c # cs \<Rightarrow>
                      if c \<noteq> CHR '':'' then None
                      else
                        (case parse_value w n cs of
                           None \<Rightarrow> None
                         | Some (v, r1) \<Rightarrow>
                             (case skip_ws r1 of
                                [] \<Rightarrow> None
                              | d # ds \<Rightarrow>
                                  if d = CHR ''}'' then Some ([(key, v)], ds)
                                  else if d = CHR '','' then
                                    (case parse_members w n ds of
                                       None \<Rightarrow> None
                                     | Some (ps, r2) \<Rightarrow> Some ((key, v) # ps, r2))
                                  else None)))))"

text \<open>
  \<^verbatim>\<open>JSON.parse\<close>: one value, with nothing but white space after it. A text is never nested
  deeper than it is long.
\<close>

definition JSON_parse :: "world \<Rightarrow> string \<Rightarrow> js_exception + jsval" where
  "JSON_parse w raw =
     (case parse_value w (Suc (length raw)) raw of
        None \<Rightarrow> Inl SyntaxError
      | Some (v, rest) \<Rightarrow> if skip_ws rest = [] then Inr v else Inl SyntaxError)"

text \<open>
  What a value reads back as: \<^verbatim>\<open>undefined\<close>, \<^verbatim>\<open>NaN\<close> and the infinities as \<^verbatim>\<open>null\<close>, an
  object without the properties whose value is \<^verbatim>\<open>undefined\<close>.
\<close>

fun json_image :: "jsval \<Rightarrow> jsval" where
  "json_image JUndefined = JNull"
| "json_image JNull = JNull"
| "json_image (JBool b) = JBool b"
| "json_image (JNum n) = (case n of Finite q \<Rightarrow> JNum (Finite q) | _ \<Rightarrow> JNull)"
| "json_image (JStr s) = JStr s"
| "json_image (JArr xs) = JArr (map json_image xs)"
| "json_image (JObj kvs) =
     JObj (map (\<lambda>kv. (fst kv, json_image (snd kv))) (filter (\<lambda>kv. snd kv \<noteq> JUndefined) kvs))"

text \<open>
  A JSON value has no \<^verbatim>\<open>undefined\<close>, \<^verbatim>\<open>NaN\<close> or infinity in it.
\<close>

fun json_value :: "jsval \<Rightarrow> bool" where
  "json_value JUndefined = False"
| "json_value JNull = True"
| "json_value (JBool b) = True"
| "json_value (JNum n) = (case n of Finite q \<Rightarrow> True | _ \<Rightarrow> False)"
| "json_value (JStr s) = True"
| "json_value (JArr xs) = list_all json_value xs"
| "json_value (JObj kvs) = list_all (\<lambda>kv. json_value (snd kv)) kvs"

text \<open>
  The keys of an object are distinct, the array indices first and in ascending order;
  a value is \<open>plain\<close> when its objects are such and its finite numbers are safe integers.
\<close>

definition index_before :: "string \<Rightarrow> string \<Rightarrow> bool" where
  "index_before k l =
     (case (array_index k, array_index l) of
        (Some i, Some j) \<Rightarrow> i < j
      | (None, Some j) \<Rightarrow> False
      | _ \<Rightarrow> True)"

fun plain :: "jsval \<Rightarrow> bool" where
  "plain (JNum n) = (case n of Finite q \<Rightarrow> safe_integer q | _ \<Rightarrow> True)"
| "plain (JArr xs) = list_all plain xs"
| "plain (JObj kvs) =
     (distinct (map fst kvs) \<and> sorted_wrt index_before (map fst kvs) \<and> list_all (\<lambda>kv. plain (snd kv)) kvs)"
| "plain v = True"

text \<open>Inside a text a value is followed by a comma or a line break, or by nothing.\<close>

definition delimited :: "string \<Rightarrow> bool" where
  "delimited rest = (case rest of [] \<Rightarrow> True | c # cs \<Rightarrow> c = CHR '','' \<or> c = CHR 0x0A)"

text \<open>A character that can begin an element of an array or a property of an object.\<close>

definition opens :: "char \<Rightarrow> bool" where
  "opens c \<longleftrightarrow> \<not> is_ws c \<and> c \<noteq> CHR '']'' \<and> c \<noteq> CHR ''}''"

section \<open>The state store\<close>

text \<open>
  A persisted observation has the fields of an observation and the two time stamps. The
  \<open>observations\<close> of a persisted state are \<open>None\<close> when the state has no such field.
\<close>

record persisted = observation +
  lastValidatedAt :: jsval
  lastAppliedAt :: jsval

record state =
  manifestHash :: jsval
  observations :: "persisted object option"

subsection \<open>\<^verbatim>\<open>updateState\<close> (engine.js 209-228)\<close>

text \<open>
  \<^verbatim>\<open>previous ? previous.lastAppliedAt : null\<close>, where \<open>previous\<close> is
  \<^verbatim>\<open>existingState.observations[key]\<close>, or \<^verbatim>\<open>null\<close> when the state has no observations: the
  field of the previous record, \<^verbatim>\<open>undefined\<close> on an inherited built-in, and \<^verbatim>\<open>null\<close> when
  there is none.
\<close>

definition previousLastAppliedAt :: "state \<Rightarrow> string \<Rightarrow> jsval" where
  "previousLastAppliedAt existingState key =
     (let previous = (case observations existingState of
                        Some obs \<Rightarrow> get_prop obs key
                      | None \<Rightarrow> Absent)
      in case previous of
           Own p \<Rightarrow> lastAppliedAt p
         | Inherited \<Rightarrow> JUndefined
         | Absent \<Rightarrow> JNull)"

text \<open>
  The body of the loop. The assignment \<^verbatim>\<open>next.observations[key] = ...\<close> replaces the value
  of a key that is there and appends a new key.
\<close>

definition updateEntry :: "string \<Rightarrow> state \<Rightarrow> persisted object \<Rightarrow> result \<Rightarrow> persisted object" where
  "updateEntry now existingState next result =
     (let key = serviceName result @ '':'' @ stateId result
      in AList.update key
           \<lparr>status = status (observation result),
            evidence = evidence (observation result),
            lastValidatedAt = JStr now,
            lastAppliedAt = previousLastAppliedAt existingState key\<rparr>
           next)"

text \<open>\<open>now\<close> is \<^verbatim>\<open>new Date().toISOString()\<close>.\<close>

definition updateState :: "string \<Rightarrow> state \<Rightarrow> result list \<Rightarrow> jsval \<Rightarrow> state" where
  "updateState now existingState results hash =
     \<lparr>manifestHash = hash,
      observations = Some (foldl (updateEntry now existingState) [] results)\<rparr>"

subsection \<open>\<^verbatim>\<open>summarizeResults\<close> (engine.js 230-240)\<close>

record summary =
  healthy :: nat
  missing :: nat
  unknown :: nat
  total :: nat

definition countResult :: "summary \<Rightarrow> result \<Rightarrow> summary" where
  "countResult summary result =
     (let st = status (observation result) in
      if st = ''healthy'' then summary\<lparr>healthy := healthy summary + 1\<rparr>
      else if st = ''missing'' then summary\<lparr>missing := missing summary + 1\<rparr>
      else summary\<lparr>unknown := unknown summary + 1\<rparr>)"

definition summarizeResults :: "result list \<Rightarrow> summary" where
  "summarizeResults results =
     (foldl countResult \<lparr>healthy = 0, missing = 0, unknown = 0, total = 0\<rparr> results)
       \<lparr>total := length results\<rparr>"

subsection \<open>\<^verbatim>\<open>loadState\<close> (engine.js 189-200) and \<^verbatim>\<open>writeState\<close> (engine.js 202-207)\<close>

definition DEFAULT_STATE_PATH :: string where
  "DEFAULT_STATE_PATH = ''.nexus/state.json''"

text \<open>\<^verbatim>\<open>path.resolve(statePath)\<close> resolves against the working directory.\<close>

definition loadState :: "world \<Rightarrow> string option \<Rightarrow> error + jsval" where
  "loadState w statePath =
     (let absolutePath = resolve w (cwd w) (case statePath of Some p \<Rightarrow> p | None \<Rightarrow> DEFAULT_STATE_PATH) in
      if \<not> existsSync w absolutePath then
        Inr (JObj [(''manifestHash'', JNull), (''observations'', JObj [])])
      else
        (case readFileSync w absolutePath of
           Inl e \<Rightarrow> Inl e
         | Inr raw \<Rightarrow>
             (case JSON_parse w raw of
                Inl x \<Rightarrow> Inl (InvalidStateFile absolutePath)
              | Inr v \<Rightarrow> Inr v)))"

definition writeState :: "world \<Rightarrow> jsval \<Rightarrow> string option \<Rightarrow> error + world" where
  "writeState w st statePath =
     (let absolutePath = resolve w (cwd w) (case statePath of Some p \<Rightarrow> p | None \<Rightarrow> DEFAULT_STATE_PATH);
          dir = dirname w absolutePath
      in case mkdirSync w dir of
           Inl e \<Rightarrow> Inl e
         | Inr w1 \<Rightarrow> writeFileSync w1 absolutePath (JSON_stringify w st))"

section \<open>The manifest of the README\<close>

definition merchant_api :: service where
  "merchant_api =
     \<lparr>root = JStr ''services/merchant-api'',
      requires_services = None,
      consumes_env = None,
      states = Some
        [(''deps.synchronized'',
            Some [(''type'', JStr ''package.deps''), (''manager'', JStr ''pnpm''),
                  (''lockfile'', JStr ''pnpm-lock.yaml'')]),
         (''schema.aligned'',
            Some [(''type'', JStr ''db.schema''), (''provider'', JStr ''postgres''),
                  (''source'', JStr ''prisma/schema.prisma''),
                  (''target'', JStr ''database:merchant'')]),
         (''env.exported'',
            Some [(''type'', JStr ''env.export''), (''keys'', JArr [JStr ''MERCHANT_API_URL''])]),
         (''service.running'',
            Some [(''type'', JStr ''process.http''), (''port'', JNum (Finite 4001)),
                  (''health'', JStr ''/health'')])]\<rparr>"

definition frontend :: service where
  "frontend =
     \<lparr>root = JStr ''apps/frontend'',
      requires_services = Some [''merchant-api''],
      consumes_env = Some
        [(''MERCHANT_API_URL'', JObj [(''from'', JStr ''merchant-api.MERCHANT_API_URL'')])],
      states = Some
        [(''deps.synchronized'',
            Some [(''type'', JStr ''package.deps''), (''manager'', JStr ''pnpm''),
                  (''lockfile'', JStr ''pnpm-lock.yaml'')]),
         (''env.inherited'',
            Some [(''type'', JStr ''env.inherit''), (''from'', JStr ''merchant-api'')]),
         (''service.running'',
            Some [(''type'', JStr ''process.http''), (''port'', JNum (Finite 3000)),
                  (''health'', JStr ''/'')])]\<rparr>"

definition readme_intent :: intent where
  "readme_intent =
     \<lparr>desired_services = Some
        [(''merchant-api'',
            Some (Some [''deps.synchronized'', ''schema.aligned'', ''env.exported'',
                        ''service.running''])),
         (''frontend'',
            Some (Some [''deps.synchronized'', ''env.inherited'', ''service.running'']))]\<rparr>"

definition readme_manifest :: manifest where
  "readme_manifest =
     \<lparr>services = [(''merchant-api'', Some merchant_api), (''frontend'', Some frontend)],
      intents = [(''onboarding'', Some readme_intent), (''feature'', Some readme_intent)],
      defaultIntent = None\<rparr>"


text \<open>An intent that lists a state twice.\<close>

definition repeating_manifest :: manifest where
  "repeating_manifest =
     \<lparr>services = [(''merchant-api'', Some merchant_api)],
      intents =
        [(''feature'',
          Some \<lparr>desired_services = Some
             [(''merchant-api'', Some (Some [''env.exported'', ''env.exported'']))]\<rparr>)],
      defaultIntent = None\<rparr>"

text \<open>
  The prefixes of a path that end before a slash, the root first: for
  \<open>/repo/.nexus/state.json\<close> they are \<open>/\<close>, \<open>/repo\<close> and \<open>/repo/.nexus\<close>.
\<close>

fun slash_prefixes :: "string \<Rightarrow> string \<Rightarrow> string list" where
  "slash_prefixes pre [] = []"
| "slash_prefixes pre (c # cs) =
     (if c = CHR ''/'' then (if pre = [] then ''/'' else pre) # slash_prefixes (pre @ [c]) cs
      else slash_prefixes (pre @ [c]) cs)"

text \<open>
  A checkout of the project under \<open>/repo\<close>: the lockfile of \<open>merchant-api\<close> is there, its
  schema is not, and only port 4001 accepts connections. The digest stands for SHA-256.
\<close>

definition readme_world :: world where
  "readme_world =
     \<lparr>fs = map_of
        [(''/repo'', Directory),
         (''/repo/services/merchant-api'', Directory),
         (''/repo/services/merchant-api/pnpm-lock.yaml'', File ''lockfileVersion: 9'')],
      cwd = ''/repo'',
      resolve = (\<lambda>base p. base @ ''/'' @ p),
      join = (\<lambda>base p. base @ ''/'' @ p),
      ancestors = (\<lambda>p. if p = ''/'' then [] else rev (slash_prefixes [] p)),
      sha256_hex = (\<lambda>content. ''digest of '' @ content),
      Number = (\<lambda>v. case v of JNum n \<Rightarrow> Inr n | _ \<Rightarrow> Inr NaN),
      Number_toString = (\<lambda>q. ''0''),
      socket_connect = (\<lambda>host port timeoutMs. Inr (if port = 4001 then Connected else SocketTimeout))\<rparr>"

text \<open>The plan item of \<open>merchant-api\<close> for \<open>env.exported\<close>, and its result in that checkout.\<close>

definition exported_item :: planitem where
  "exported_item =
     \<lparr>serviceName = ''merchant-api'', stateId = ''env.exported'', type = JStr ''env.export'',
      config = [(''type'', JStr ''env.export''), (''keys'', JArr [JStr ''MERCHANT_API_URL''])],
      service = merchant_api\<rparr>"

definition exported_result :: result where
  "exported_result =
     \<lparr>serviceName = ''merchant-api'', stateId = ''env.exported'', type = JStr ''env.export'',
      config = [(''type'', JStr ''env.export''), (''keys'', JArr [JStr ''MERCHANT_API_URL''])],
      service = merchant_api,
      observation =
        \<lparr>status = ''healthy'', evidence = JObj [(''keys'', JArr [JStr ''MERCHANT_API_URL''])]\<rparr>\<rparr>"

text \<open>
  A state persisted by an earlier run, when \<open>merchant-api\<close> exported nothing yet and the
  intent still covered the frontend.
\<close>

definition earlier_state :: state where
  "earlier_state =
     \<lparr>manifestHash = JStr ''sha256:1c9b'',
      observations = Some
        [(''merchant-api:env.exported'',
          \<lparr>status = ''missing'', evidence = JObj [(''keys'', JArr [])],
           lastValidatedAt = JStr ''2026-02-01T12:10:05Z'',
           lastAppliedAt = JStr ''2026-02-01T12:09:42Z''\<rparr>),
         (''frontend:env.inherited'',
          \<lparr>status = ''healthy'', evidence = JObj [(''from'', JStr ''merchant-api'')],
           lastValidatedAt = JStr ''2026-02-01T12:10:07Z'',
           lastAppliedAt = JNull\<rparr>)]\<rparr>"


text \<open>
  Two services whose dependencies give the same key \<^verbatim>\<open>edge->proxy->api:requires\<close>:
  \<open>edge\<close> requires \<open>proxy->api\<close>, and \<open>edge->proxy\<close> requires \<open>api\<close>.
\<close>

definition colliding_manifest :: manifest where
  "colliding_manifest =
     \<lparr>services =
        [(''edge'',
          Some \<lparr>root = JUndefined, requires_services = Some [''proxy->api''],
                consumes_env = None, states = None\<rparr>),
         (''edge->proxy'',
          Some \<lparr>root = JUndefined, requires_services = Some [''api''],
                consumes_env = None, states = None\<rparr>)],
      intents = [],
      defaultIntent = None\<rparr>"

text \<open>
  A persisted state with one observation, and the text \<^verbatim>\<open>JSON.stringify(state, null, 2)\<close>
  gives for it.
\<close>

definition saved_state :: jsval where
  "saved_state =
     JObj [(''manifestHash'', JStr ''sha256:77aa''),
           (''observations'', JObj
              [(''merchant-api:service.running'', JObj
                  [(''status'', JStr ''healthy''),
                   (''evidence'', JObj [(''host'', JStr ''127.0.0.1''),
                                        (''port'', JNum (Finite 4001)),
                                        (''open'', JBool True)]),
                   (''lastValidatedAt'', JStr ''2026-02-01T12:10:05Z''),
                   (''lastAppliedAt'', JNull)])])]"

definition saved_text :: string where
  "saved_text =
     ''{'' @ [CHR 0x0A] @
     ''  \"manifestHash\": \"sha256:77aa\",'' @ [CHR 0x0A] @
     ''  \"observations\": {'' @ [CHR 0x0A] @
     ''    \"merchant-api:service.running\": {'' @ [CHR 0x0A] @
     ''      \"status\": \"healthy\",'' @ [CHR 0x0A] @
     ''      \"evidence\": {'' @ [CHR 0x0A] @
     ''        \"host\": \"127.0.0.1\",'' @ [CHR 0x0A] @
     ''        \"port\": 4001,'' @ [CHR 0x0A] @
     ''        \"open\": true'' @ [CHR 0x0A] @
     ''      },'' @ [CHR 0x0A] @
     ''      \"lastValidatedAt\": \"2026-02-01T12:10:05Z\",'' @ [CHR 0x0A] @
     ''      \"lastAppliedAt\": null'' @ [CHR 0x0A] @
     ''    }'' @ [CHR 0x0A] @
     ''  }'' @ [CHR 0x0A] @
     ''}''"

text \<open>
  The state after the frontend was validated with no \<open>from\<close> in its \<open>env.inherit\<close> state
  (the evidence is \<^verbatim>\<open>{ from: undefined }\<close>), and the state that is read back.
\<close>

definition unset_state :: jsval where
  "unset_state =
     JObj [(''manifestHash'', JStr ''sha256:77aa''),
           (''observations'', JObj
              [(''frontend:env.inherited'', JObj
                  [(''status'', JStr ''missing''),
                   (''evidence'', JObj [(''from'', JUndefined)]),
                   (''lastValidatedAt'', JStr ''2026-02-01T12:10:07Z''),
                   (''lastAppliedAt'', JNull)])])]"

definition unset_state_read :: jsval where
  "unset_state_read =
     JObj [(''manifestHash'', JStr ''sha256:77aa''),
           (''observations'', JObj
              [(''frontend:env.inherited'', JObj
                  [(''status'', JStr ''missing''),
                   (''evidence'', JObj []),
                   (''lastValidatedAt'', JStr ''2026-02-01T12:10:07Z''),
                   (''lastAppliedAt'', JNull)])])]"

text \<open>The README manifest with the body of \<open>feature\<close> left empty.\<close>

definition hollow_manifest :: manifest where
  "hollow_manifest =
     readme_manifest\<lparr>intents := [(''feature'', None), (''onboarding'', Some readme_intent)]\<rparr>"



section \<open>Property reads\<close>

lemma get_prop_not_own:
  "k \<notin> fst ` set obj \<Longrightarrow>
     get_prop obj k = (if k \<in> set object_prototype_names then Inherited else Absent)"
  by (simp add: get_prop_def map_of_eq_None_iff [THEN iffD2])

lemma get_prop_own:
  "k \<in> fst ` set obj \<Longrightarrow> \<exists>v. get_prop obj k = Own v \<and> map_of obj k = Some v"
proof -
  assume "k \<in> fst ` set obj"
  then have "map_of obj k \<noteq> None" by (simp add: map_of_eq_None_iff)
  then show ?thesis by (auto simp: get_prop_def)
qed

lemma get_prop_map_of: "map_of obj k = Some v \<Longrightarrow> get_prop obj k = Own v"
  by (simp add: get_prop_def)

lemma truthy_get_prop:
  "truthy_prop (get_prop obj k) \<longleftrightarrow>
     (\<exists>v. map_of obj k = Some (Some v)) \<or>
     (k \<notin> fst ` set obj \<and> k \<in> set object_prototype_names)"
proof (cases "k \<in> fst ` set obj")
  case True
  from get_prop_own [OF True] obtain v where "get_prop obj k = Own v" "map_of obj k = Some v"
    by blast
  with True show ?thesis by (cases v) auto
next
  case False
  then have "map_of obj k = None" by (simp add: map_of_eq_None_iff)
  with False show ?thesis by (simp add: get_prop_not_own)
qed

lemma feature_not_inherited: "''feature'' \<notin> set object_prototype_names"
  by (simp add: object_prototype_names_def)

section \<open>Intent resolution\<close>

text \<open>
  C4, as the code has it. An intent can be selected when it is declared with a body,
  that is, not \<^verbatim>\<open>null\<close>. A supplied name counts only when it is not empty
  (\<^verbatim>\<open>if (intentName)\<close>): it is selected when such an intent has the name, and the
  resolution fails with \<open>IntentNotFound\<close> when the intent of that name has no body, or
  when the name is neither declared nor the name of a member of \<^verbatim>\<open>Object.prototype\<close>.
  With no name or the empty name, the \<open>defaultIntent\<close> field is selected when it is not
  empty and names an intent with a body. When it is unset or empty, names an intent
  without a body, or names neither a declared intent nor a member of
  \<^verbatim>\<open>Object.prototype\<close>, the intent \<open>feature\<close> is selected if it has a body, else the first
  declared name (with or without a body), and with no intents at all the resolution
  fails with \<open>NoIntents\<close>.
\<close>

theorem resolveIntentName_selects:
  "(\<forall>n i. intentName = Some n \<and> n \<noteq> [] \<and> map_of (intents m) n = Some (Some i)
        \<longrightarrow> resolveIntentName m intentName = Inr n) \<and>
   (\<forall>n. intentName = Some n \<and> n \<noteq> [] \<and>
          (map_of (intents m) n = Some None \<or>
           (n \<notin> fst ` set (intents m) \<and> n \<notin> set object_prototype_names))
        \<longrightarrow> resolveIntentName m intentName = Inl (IntentNotFound n)) \<and>
   (\<forall>d i. str_truthy intentName = None \<and> defaultIntent m = Some d \<and> d \<noteq> []
          \<and> map_of (intents m) d = Some (Some i)
        \<longrightarrow> resolveIntentName m intentName = Inr d) \<and>
   (str_truthy intentName = None
      \<and> (\<forall>d. str_truthy (defaultIntent m) = Some d
               \<longrightarrow> map_of (intents m) d = Some None \<or>
                   (d \<notin> fst ` set (intents m) \<and> d \<notin> set object_prototype_names))
      \<longrightarrow> resolveIntentName m intentName =
            (if \<exists>i. map_of (intents m) ''feature'' = Some (Some i) then Inr ''feature''
             else case intents m of [] \<Rightarrow> Inl NoIntents | (n, i) # rest \<Rightarrow> Inr n))"
proof -
  have feature: "truthy_prop (get_prop (intents m) ''feature'')
      \<longleftrightarrow> (\<exists>i. map_of (intents m) ''feature'' = Some (Some i))"
    by (simp add: truthy_get_prop feature_not_inherited)
  have fallback: "(if truthy_prop (get_prop (intents m) ''feature'') then Inr ''feature''
         else case map fst (intents m) of n # x \<Rightarrow> Inr n | [] \<Rightarrow> Inl NoIntents) =
      (if \<exists>i. map_of (intents m) ''feature'' = Some (Some i) then Inr ''feature''
       else case intents m of [] \<Rightarrow> Inl NoIntents | (n, i) # rest \<Rightarrow> Inr n)"
    by (simp add: feature split: list.splits)
  have 1: "resolveIntentName m intentName = Inr n"
    if "intentName = Some n" "n \<noteq> []" "map_of (intents m) n = Some (Some i)" for n i
    using that by (simp add: resolveIntentName_def get_prop_map_of)
  have 2: "resolveIntentName m intentName = Inl (IntentNotFound n)"
    if "intentName = Some n" "n \<noteq> []"
      "map_of (intents m) n = Some None \<or>
         (n \<notin> fst ` set (intents m) \<and> n \<notin> set object_prototype_names)" for n
    using that by (auto simp: resolveIntentName_def get_prop_map_of get_prop_not_own)
  have 3: "resolveIntentName m intentName = Inr d"
    if "str_truthy intentName = None" "defaultIntent m = Some d" "d \<noteq> []"
      "map_of (intents m) d = Some (Some i)" for d i
    using that by (simp add: resolveIntentName_def get_prop_map_of Let_def)
  have 4: "resolveIntentName m intentName =
      (if \<exists>i. map_of (intents m) ''feature'' = Some (Some i) then Inr ''feature''
       else case intents m of [] \<Rightarrow> Inl NoIntents | (n, i) # rest \<Rightarrow> Inr n)"
    if none: "str_truthy intentName = None"
      and dangling: "\<forall>d. str_truthy (defaultIntent m) = Some d
          \<longrightarrow> map_of (intents m) d = Some None \<or>
              (d \<notin> fst ` set (intents m) \<and> d \<notin> set object_prototype_names)"
  proof (cases "str_truthy (defaultIntent m)")
    case None
    with none show ?thesis
      by (simp add: resolveIntentName_def Let_def fallback)
  next
    case (Some d)
    with dangling have "\<not> truthy_prop (get_prop (intents m) d)"
      by (auto simp: get_prop_map_of get_prop_not_own)
    with none Some show ?thesis
      by (simp add: resolveIntentName_def Let_def fallback)
  qed
  from 1 2 3 4 show ?thesis by blast
qed

theorem resolveIntentName_selects_witness:
  "resolveIntentName readme_manifest (Some ''onboarding'') = Inr ''onboarding'' \<and>
   resolveIntentName readme_manifest (Some ''hotfix'') = Inl (IntentNotFound ''hotfix'') \<and>
   resolveIntentName hollow_manifest (Some ''feature'') = Inl (IntentNotFound ''feature'') \<and>
   resolveIntentName (readme_manifest\<lparr>defaultIntent := Some ''onboarding''\<rparr>) None
     = Inr ''onboarding'' \<and>
   resolveIntentName (readme_manifest\<lparr>defaultIntent := Some ''hotfix''\<rparr>) (Some '''')
     = Inr ''feature'' \<and>
   resolveIntentName (hollow_manifest\<lparr>intents := [(''onboarding'', Some readme_intent), (''feature'', None)]\<rparr>) None
     = Inr ''onboarding'' \<and>
   resolveIntentName hollow_manifest None = Inr ''feature'' \<and>
   resolveIntentName (readme_manifest\<lparr>intents := []\<rparr>) None = Inl NoIntents"
  using resolveIntentName_selects [of "Some ''onboarding''" readme_manifest]
    resolveIntentName_selects [of "Some ''hotfix''" readme_manifest]
    resolveIntentName_selects [of "Some ''feature''" hollow_manifest]
    resolveIntentName_selects [of None "readme_manifest\<lparr>defaultIntent := Some ''onboarding''\<rparr>"]
    resolveIntentName_selects [of "Some ''''" "readme_manifest\<lparr>defaultIntent := Some ''hotfix''\<rparr>"]
    resolveIntentName_selects [of None "hollow_manifest\<lparr>intents := [(''onboarding'', Some readme_intent), (''feature'', None)]\<rparr>"]
    resolveIntentName_selects [of None hollow_manifest]
    resolveIntentName_selects [of None "readme_manifest\<lparr>intents := []\<rparr>"]
  by (simp add: readme_manifest_def hollow_manifest_def object_prototype_names_def)

text \<open>
  C4 as stated fails. The empty name is a supplied name that is not declared, and the
  code resolves the default instead of failing; a \<open>defaultIntent\<close> that is not declared
  is not selected; and a declared intent with an empty body is not found.
\<close>

theorem resolveIntentName_counterexample:
  "resolveIntentName readme_manifest (Some '''') = Inr ''feature'' \<and>
   spec_resolveIntentName readme_manifest (Some '''') = Inl (IntentNotFound '''') \<and>
   resolveIntentName (readme_manifest\<lparr>defaultIntent := Some ''hotfix''\<rparr>) None = Inr ''feature'' \<and>
   spec_resolveIntentName (readme_manifest\<lparr>defaultIntent := Some ''hotfix''\<rparr>) None = Inr ''hotfix'' \<and>
   resolveIntentName hollow_manifest (Some ''feature'') = Inl (IntentNotFound ''feature'') \<and>
   spec_resolveIntentName hollow_manifest (Some ''feature'') = Inr ''feature''"
  by (simp add: resolveIntentName_def spec_resolveIntentName_def readme_manifest_def
      hollow_manifest_def get_prop_def object_prototype_names_def)

text \<open>
  C10 at a \<open>defaultIntent\<close> that names a member of \<^verbatim>\<open>Object.prototype\<close>: no intent
  \<open>constructor\<close> is declared, \<^verbatim>\<open>manifest.intents["constructor"]\<close> is the inherited function, and
  the dangling name is returned instead of \<open>feature\<close>.
\<close>

theorem resolveIntentName_inherited_default:
  "resolveIntentName (readme_manifest\<lparr>defaultIntent := Some ''constructor''\<rparr>) None
     = Inr ''constructor''"
  by (simp add: resolveIntentName_def readme_manifest_def get_prop_def object_prototype_names_def)

text \<open>
  Apart from those names, a \<open>defaultIntent\<close> that is not declared changes nothing: the
  result is that of the manifest without the field, and it is never \<open>IntentNotFound\<close>.
\<close>

lemma resolveIntentName_dangling_default:
  assumes "defaultIntent m = Some d"
    and "d \<notin> fst ` set (intents m)"
    and "d \<notin> set object_prototype_names"
  shows "resolveIntentName m None = resolveIntentName (m\<lparr>defaultIntent := None\<rparr>) None"
    and "resolveIntentName m None \<noteq> Inl (IntentNotFound x)"
  using assms
  by (auto simp: resolveIntentName_def Let_def get_prop_not_own split: list.splits)

section \<open>Plan construction\<close>

lemma planStates_find:
  "planStates name svc ids =
     (case find (\<lambda>sid. resolveState svc sid = None) ids of
        Some sid \<Rightarrow> Inl (StateNotFound name sid)
      | None \<Rightarrow> planStates name svc ids) \<and>
   (find (\<lambda>sid. resolveState svc sid = None) ids = None
      \<longrightarrow> (\<exists>items. planStates name svc ids = Inr items))"
proof (induction ids)
  case Nil
  show ?case by simp
next
  case (Cons sid ids)
  show ?case
  proof (cases "resolveState svc sid")
    case None
    then show ?thesis by simp
  next
    case (Some found)
    obtain s st where found: "found = (s, st)" by (cases found)
    show ?thesis
    proof (cases "find (\<lambda>sid. resolveState svc sid = None) ids")
      case None
      with Cons.IH obtain items where "planStates name svc ids = Inr items" by auto
      with Some found None show ?thesis by simp
    next
      case (Some missing)
      with Cons.IH have "planStates name svc ids = Inl (StateNotFound name missing)" by simp
      with \<open>resolveState svc sid = Some found\<close> found Some show ?thesis by simp
    qed
  qed
qed


lemma planServices_entry_ok:
  assumes "entryError m entry = None"
  shows "planServices m (entry # rest) =
     (case planServices m rest of
        Inl e \<Rightarrow> Inl e
      | Inr others \<Rightarrow>
          (case planStates (fst entry) (get_prop (services m) (fst entry))
                  (case snd entry of Some (Some ids) \<Rightarrow> ids | _ \<Rightarrow> []) of
             Inr items \<Rightarrow> Inr (items @ others)
           | Inl e \<Rightarrow> Inl e))"
    and "\<exists>items. planStates (fst entry) (get_prop (services m) (fst entry))
                  (case snd entry of Some (Some ids) \<Rightarrow> ids | _ \<Rightarrow> []) = Inr items"
proof -
  obtain name desired where entry: "entry = (name, desired)" by (cases entry)
  from assms entry have there: "truthy_prop (get_prop (services m) name)"
    by (simp add: entryError_def split: if_splits)
  from assms entry there obtain listed where desired: "desired = Some listed"
    by (cases desired) (simp_all add: entryError_def)
  let ?ids = "case listed of Some ids \<Rightarrow> ids | None \<Rightarrow> []"
  have ids: "(case snd entry of Some (Some ids) \<Rightarrow> ids | _ \<Rightarrow> []) = ?ids"
    by (simp add: entry desired split: option.splits)
  from assms entry there desired
  have "find (\<lambda>sid. resolveState (get_prop (services m) name) sid = None) ?ids = None"
    by (simp add: entryError_def split: option.splits)
  with planStates_find [of name "get_prop (services m) name" ?ids]
  obtain items where items: "planStates name (get_prop (services m) name) ?ids = Inr items"
    by auto
  show "\<exists>items. planStates (fst entry) (get_prop (services m) (fst entry))
                  (case snd entry of Some (Some ids) \<Rightarrow> ids | _ \<Rightarrow> []) = Inr items"
    unfolding ids using items by (simp add: entry)
  show "planServices m (entry # rest) =
     (case planServices m rest of
        Inl e \<Rightarrow> Inl e
      | Inr others \<Rightarrow>
          (case planStates (fst entry) (get_prop (services m) (fst entry))
                  (case snd entry of Some (Some ids) \<Rightarrow> ids | _ \<Rightarrow> []) of
             Inr items \<Rightarrow> Inr (items @ others)
           | Inl e \<Rightarrow> Inl e))"
    unfolding ids using items there
    by (simp add: entry desired Let_def split: sum.splits)
qed


lemma planServices_no_error:
  "\<forall>x \<in> set entries. entryError m x = None \<Longrightarrow> \<exists>items. planServices m entries = Inr items"
proof (induction entries)
  case Nil
  show ?case by simp
next
  case (Cons x entries)
  then obtain others where others: "planServices m entries = Inr others" by auto
  from Cons.prems have ok: "entryError m x = None" by simp
  from planServices_entry_ok(2) [OF ok] obtain items
    where "planStates (fst x) (get_prop (services m) (fst x))
             (case snd x of Some (Some ids) \<Rightarrow> ids | _ \<Rightarrow> []) = Inr items"
    by blast
  with planServices_entry_ok(1) [OF ok, of entries] others show ?case by simp
qed

lemma buildPlan_entries:
  assumes "map_of (intents m) intentName = Some (Some intent)"
    and "desired_services intent = Some entries"
  shows "buildPlan m intentName = planServices m entries"
  using assms by (simp add: buildPlan_def get_prop_def)





text \<open>
  A service named like a member of \<^verbatim>\<open>Object.prototype\<close> is read from the prototype when it
  is not declared: with no state asked of it, the plan is built without it.
\<close>

lemma buildPlan_inherited_service:
  "buildPlan \<lparr>services = [], intents = [(''feature'', Some \<lparr>desired_services = Some
       [(''constructor'', Some (Some []))]\<rparr>)], defaultIntent = None\<rparr> ''feature'' = Inr []"
  by (simp add: buildPlan_def get_prop_def object_prototype_names_def)

text \<open>An entry that is \<^verbatim>\<open>null\<close> stops the plan with a \<^verbatim>\<open>TypeError\<close>.\<close>

lemma buildPlan_null_entry:
  "buildPlan (readme_manifest\<lparr>intents := [(''feature'', Some \<lparr>desired_services = Some
       [(''merchant-api'', None)]\<rparr>)]\<rparr>) ''feature'' = Inl (Runtime TypeError)"
  by (simp add: buildPlan_def get_prop_def readme_manifest_def)

section \<open>Validation of a plan\<close>

lemma planStates_pairs:
  "planStates name svc ids = Inr items \<Longrightarrow>
     map (\<lambda>i. (serviceName i, stateId i)) items = map (Pair name) ids"
  by (induction ids arbitrary: items) (auto split: option.splits sum.splits)

lemma planServices_pairs:
  "planServices m entries = Inr items \<Longrightarrow>
     map (\<lambda>i. (serviceName i, stateId i)) items = desired_pairs entries"
proof (induction entries arbitrary: items)
  case Nil
  then show ?case by (simp add: desired_pairs_def)
next
  case (Cons entry entries)
  obtain name desired where entry: "entry = (name, desired)" by (cases entry)
  from Cons.prems entry obtain listed where desired: "desired = Some listed"
    by (cases desired) (simp_all add: Let_def split: if_splits)
  from Cons.prems obtain xs ys where
    xs: "planStates name (get_prop (services m) name)
           (case listed of Some ids \<Rightarrow> ids | None \<Rightarrow> []) = Inr xs"
    and ys: "planServices m entries = Inr ys" and items: "items = xs @ ys"
    by (auto simp: entry desired Let_def split: if_splits sum.splits)
  have here: "(case desired of Some (Some ids) \<Rightarrow> ids | _ \<Rightarrow> [])
      = (case listed of Some ids \<Rightarrow> ids | None \<Rightarrow> [])"
    by (simp add: desired split: option.splits)
  show ?case
    using planStates_pairs [OF xs] Cons.IH [OF ys]
    by (simp add: items entry desired_pairs_def here)
qed

lemma validatePlan_items:
  "validatePlan w plan projectRoot = Inr results \<Longrightarrow>
     list_all2 (\<lambda>item r. planitem.truncate r = item \<and>
                  observeState w item projectRoot = Inr (observation r)) plan results"
  by (induction plan arbitrary: results) (auto simp: planitem.truncate_def split: sum.splits)

lemma desired_pairs_names: "fst ` set (desired_pairs entries) \<subseteq> fst ` set entries"
  by (force simp: desired_pairs_def split: option.splits)

lemma distinct_desired_pairs:
  "distinct (map fst entries) \<Longrightarrow>
   (\<forall>(name, desired) \<in> set entries. \<forall>ids. desired = Some (Some ids) \<longrightarrow> distinct ids) \<Longrightarrow>
   distinct (desired_pairs entries)"
proof (induction entries)
  case Nil
  then show ?case by (simp add: desired_pairs_def)
next
  case (Cons entry entries)
  obtain name desired where entry: "entry = (name, desired)" by (cases entry)
  let ?here = "map (Pair name) (case desired of Some (Some ids) \<Rightarrow> ids | _ \<Rightarrow> [])"
  have rest: "distinct (desired_pairs entries)"
    using Cons by simp
  have here: "distinct ?here"
    using Cons.prems(2) by (auto simp: entry distinct_map inj_on_def split: option.splits)
  have "name \<notin> fst ` set entries" using Cons.prems(1) by (simp add: entry)
  with desired_pairs_names have "name \<notin> fst ` set (desired_pairs entries)" by blast
  then have disj: "set ?here \<inter> set (desired_pairs entries) = {}"
    by (auto simp: image_iff)
  have unfold: "desired_pairs (entry # entries) = ?here @ desired_pairs entries"
    by (simp add: desired_pairs_def entry)
  show ?case unfolding unfold using rest here disj by (simp only: distinct_append)
qed

lemma key_injective:
  "CHR '':'' \<notin> set a \<Longrightarrow> CHR '':'' \<notin> set b \<Longrightarrow> a @ '':'' @ x = b @ '':'' @ y
     \<Longrightarrow> a = b \<and> x = y"
proof (induction a arbitrary: b)
  case Nil
  then show ?case by (cases b) auto
next
  case (Cons c a)
  then show ?case by (cases b) auto
qed

text \<open>
  C3, as the code has it. A validated plan has one result per plan item, in order: the
  item with the observation of that item. The (service, state) pairs of the results are
  distinct when no service of the intent lists a state twice, and their keys
  \<^verbatim>\<open><service>:<state>\<close> are then distinct when no service name holds a colon. (The entries
  of \<^verbatim>\<open>intent.desired.services\<close> are the properties of an object, so their names are
  distinct.)
\<close>

theorem validatePlan_one_per_item:
  assumes "map_of (intents m) intentName = Some (Some intent)"
    and "desired_services intent = Some entries"
    and "buildPlan m intentName = Inr plan"
    and "validatePlan w plan projectRoot = Inr results"
  shows "length results = length plan \<and>
         list_all2 (\<lambda>item r. planitem.truncate r = item \<and>
                      observeState w item projectRoot = Inr (observation r)) plan results \<and>
         (distinct (map fst entries) \<and>
          (\<forall>(name, desired) \<in> set entries. \<forall>ids. desired = Some (Some ids) \<longrightarrow> distinct ids)
            \<longrightarrow> distinct (map (\<lambda>r. (serviceName r, stateId r)) results)) \<and>
         (distinct (map fst entries) \<and>
          (\<forall>(name, desired) \<in> set entries. \<forall>ids. desired = Some (Some ids) \<longrightarrow> distinct ids) \<and>
          (\<forall>name \<in> fst ` set entries. CHR '':'' \<notin> set name)
            \<longrightarrow> distinct (map result_key results))"
proof -
  let ?pair = "\<lambda>r. (serviceName r, stateId r)"
  have items: "list_all2 (\<lambda>item r. planitem.truncate r = item \<and>
                  observeState w item projectRoot = Inr (observation r)) plan results"
    by (rule validatePlan_items [OF assms(4)])
  then have len: "length results = length plan"
    by (simp add: list_all2_lengthD)
  have "list_all2 (\<lambda>item r. ?pair r = ?pair item) plan results"
    using items by (rule list_all2_mono) (auto simp: planitem.truncate_def)
  then have same: "map ?pair results = map ?pair plan"
    by (induction rule: list_all2_induct) auto
  have "planServices m entries = Inr plan"
    using buildPlan_entries [OF assms(1,2)] assms(3) by simp
  then have pairs: "map ?pair results = desired_pairs entries"
    using planServices_pairs same by simp
  have d1: "distinct (map ?pair results)"
    if "distinct (map fst entries)"
      "\<forall>(name, desired) \<in> set entries. \<forall>ids. desired = Some (Some ids) \<longrightarrow> distinct ids"
    using distinct_desired_pairs [OF that] pairs by simp
  have d2: "distinct (map result_key results)"
    if "distinct (map fst entries)"
      "\<forall>(name, desired) \<in> set entries. \<forall>ids. desired = Some (Some ids) \<longrightarrow> distinct ids"
      "\<forall>name \<in> fst ` set entries. CHR '':'' \<notin> set name"
  proof -
    have key: "map result_key results = map (\<lambda>(a, b). a @ '':'' @ b) (map ?pair results)"
      by (simp add: result_key_def)
    have "inj_on (\<lambda>(a, b). a @ '':'' @ b) (set (desired_pairs entries))"
    proof (rule inj_onI)
      fix p q
      assume p: "p \<in> set (desired_pairs entries)" and q: "q \<in> set (desired_pairs entries)"
        and eq: "(case p of (a, b) \<Rightarrow> a @ '':'' @ b) = (case q of (a, b) \<Rightarrow> a @ '':'' @ b)"
      from p desired_pairs_names that(3) have "CHR '':'' \<notin> set (fst p)" by blast
      moreover from q desired_pairs_names that(3) have "CHR '':'' \<notin> set (fst q)" by blast
      ultimately show "p = q"
        using eq key_injective [of "fst p" "fst q" "snd p" "snd q"]
        by (cases p; cases q) simp
    qed
    with d1 [OF that(1,2)] show ?thesis
      unfolding key pairs by (simp add: distinct_map)
  qed
  from len items d1 d2 show ?thesis by blast
qed

theorem validatePlan_one_per_item_witness:
  "\<exists>plan results.
     buildPlan readme_manifest ''feature'' = Inr plan \<and>
     validatePlan readme_world plan ''/repo'' = Inr results \<and>
     length results = length plan \<and>
     distinct (map result_key results)"
proof -
  let ?entries = "[(''merchant-api'',
        Some (Some [''deps.synchronized'', ''schema.aligned'', ''env.exported'',
          ''service.running''])),
      (''frontend'', Some (Some [''deps.synchronized'', ''env.inherited'', ''service.running'']))]"
  have intent: "map_of (intents readme_manifest) ''feature'' = Some (Some readme_intent)"
    by (simp add: readme_manifest_def)
  have entries: "desired_services readme_intent = Some ?entries"
    by (simp add: readme_intent_def)
  obtain plan where plan: "buildPlan readme_manifest ''feature'' = Inr plan"
    by (simp add: buildPlan_def readme_manifest_def readme_intent_def get_prop_def
        merchant_api_def frontend_def resolveState_def field_def)
  then obtain results where results: "validatePlan readme_world plan ''/repo'' = Inr results"
    by (auto simp add: buildPlan_def readme_manifest_def readme_intent_def get_prop_def
        merchant_api_def frontend_def resolveState_def field_def observeState_def
        readme_world_def path_resolve_def path_join_def jor_def existsSync_def hashFile_def
        readFileSync_def checkPort_def)
  have wf: "distinct (map fst ?entries) \<and>
      (\<forall>(name, desired) \<in> set ?entries. \<forall>ids. desired = Some (Some ids) \<longrightarrow> distinct ids) \<and>
      (\<forall>name \<in> fst ` set ?entries. CHR '':'' \<notin> set name)"
    by simp
  from validatePlan_one_per_item [OF intent entries plan results] wf
  have "length results = length plan \<and> distinct (map result_key results)"
    by blast
  with plan results show ?thesis by blast
qed

text \<open>
  C3 as stated fails: an intent that lists a state twice gives two results with the
  same key.
\<close>

theorem validatePlan_one_per_item_counterexample:
  "buildPlan repeating_manifest ''feature'' = Inr [exported_item, exported_item] \<and>
   validatePlan readme_world [exported_item, exported_item] ''/repo''
     = Inr [exported_result, exported_result] \<and>
   map result_key [exported_result, exported_result]
     = [''merchant-api:env.exported'', ''merchant-api:env.exported'']"
  by (simp add: buildPlan_def repeating_manifest_def get_prop_def merchant_api_def
      resolveState_def field_def exported_item_def observeState_def exported_result_def
      readme_world_def path_resolve_def jor_def result_key_def)

section \<open>The persisted state\<close>

lemma colon_not_inherited: "CHR '':'' \<in> set key \<Longrightarrow> key \<notin> set object_prototype_names"
  by (auto simp: object_prototype_names_def)

lemma previousLastAppliedAt_key:
  assumes "CHR '':'' \<in> set key"
  shows "previousLastAppliedAt existingState key =
     (case observations existingState of
        None \<Rightarrow> JNull
      | Some previous \<Rightarrow> (case map_of previous key of
                            Some old \<Rightarrow> lastAppliedAt old
                          | None \<Rightarrow> JNull))"
  using colon_not_inherited [OF assms]
  by (simp add: previousLastAppliedAt_def get_prop_def split: option.splits)

lemma updateEntry_keys:
  "fst ` set (foldl (updateEntry now existingState) acc results)
     = fst ` set acc \<union> result_key ` set results"
  by (induction results arbitrary: acc)
     (auto simp: updateEntry_def result_key_def Let_def dom_update)

lemma updateEntry_distinct:
  "distinct (map fst acc) \<Longrightarrow>
     distinct (map fst (foldl (updateEntry now existingState) acc results))"
  by (induction results arbitrary: acc)
     (auto simp: updateEntry_def Let_def distinct_update)

lemma updateEntry_lookup:
  "map_of (foldl (updateEntry now existingState) acc results) key =
     (case filter (\<lambda>r. result_key r = key) results of
        [] \<Rightarrow> map_of acc key
      | r # rs \<Rightarrow>
          Some \<lparr>status = status (observation (last (r # rs))),
                evidence = evidence (observation (last (r # rs))),
                lastValidatedAt = JStr now,
                lastAppliedAt = previousLastAppliedAt existingState key\<rparr>)"
proof (induction results arbitrary: acc)
  case Nil
  show ?case by simp
next
  case (Cons x results)
  have step: "map_of (updateEntry now existingState acc x) key =
      (if result_key x = key
       then Some \<lparr>status = status (observation x), evidence = evidence (observation x),
                  lastValidatedAt = JStr now,
                  lastAppliedAt = previousLastAppliedAt existingState key\<rparr>
       else map_of acc key)"
    by (auto simp: updateEntry_def result_key_def Let_def update_conv')
  show ?case
    by (simp add: Cons.IH step split: list.splits)
qed

text \<open>
  C2. The new state holds the given hash, and its observations have one entry for each
  key \<^verbatim>\<open><service>:<state>\<close> of the results and no other. Each entry is stamped with the
  current time; its \<open>lastAppliedAt\<close> is that of the previous entry for the key, and
  \<^verbatim>\<open>null\<close> when there was none; its status and evidence are those of the (last) result with
  the key.
\<close>

theorem updateState_observations:
  "manifestHash (updateState now existingState results hash) = hash \<and>
   (\<exists>obs. observations (updateState now existingState results hash) = Some obs \<and>
      distinct (map fst obs) \<and>
      fst ` set obs = result_key ` set results \<and>
      (\<forall>r \<in> set results. \<exists>e. map_of obs (result_key r) = Some e) \<and>
      (\<forall>key e. map_of obs key = Some e \<longrightarrow>
         lastValidatedAt e = JStr now \<and>
         lastAppliedAt e =
           (case observations existingState of
              None \<Rightarrow> JNull
            | Some previous \<Rightarrow> (case map_of previous key of
                                  Some old \<Rightarrow> lastAppliedAt old
                                | None \<Rightarrow> JNull)) \<and>
         (\<exists>r \<in> set results. result_key r = key \<and>
            r = last (filter (\<lambda>r. result_key r = key) results) \<and>
            status e = status (observation r) \<and>
            evidence e = evidence (observation r))))"
proof -
  let ?obs = "foldl (updateEntry now existingState) [] results"
  have obs: "observations (updateState now existingState results hash) = Some ?obs"
    by (simp add: updateState_def)
  have keys: "fst ` set ?obs = result_key ` set results"
    by (simp add: updateEntry_keys)
  have dist: "distinct (map fst ?obs)"
    by (rule updateEntry_distinct) simp
  have present: "\<exists>e. map_of ?obs (result_key r) = Some e" if "r \<in> set results" for r
  proof -
    from that keys have "result_key r \<in> fst ` set ?obs" by blast
    then have "map_of ?obs (result_key r) \<noteq> None" by (simp add: map_of_eq_None_iff)
    then show ?thesis by blast
  qed
  have entry: "lastValidatedAt e = JStr now \<and>
         lastAppliedAt e =
           (case observations existingState of
              None \<Rightarrow> JNull
            | Some previous \<Rightarrow> (case map_of previous key of
                                  Some old \<Rightarrow> lastAppliedAt old
                                | None \<Rightarrow> JNull)) \<and>
         (\<exists>r \<in> set results. result_key r = key \<and>
            r = last (filter (\<lambda>r. result_key r = key) results) \<and>
            status e = status (observation r) \<and>
            evidence e = evidence (observation r))"
    if e: "map_of ?obs key = Some e" for key e
  proof (cases "filter (\<lambda>r. result_key r = key) results")
    case Nil
    with e show ?thesis by (simp add: updateEntry_lookup)
  next
    case (Cons x xs)
    let ?r = "last (filter (\<lambda>r. result_key r = key) results)"
    have "?r \<in> set (filter (\<lambda>r. result_key r = key) results)"
      using Cons by (simp only: last_in_set list.distinct not_False_eq_True)
    then have r: "?r \<in> set results" "result_key ?r = key" by auto
    have e': "e = \<lparr>status = status (observation ?r), evidence = evidence (observation ?r),
                lastValidatedAt = JStr now,
                lastAppliedAt = previousLastAppliedAt existingState (result_key ?r)\<rparr>"
      using e Cons r(2) by (simp add: updateEntry_lookup)
    have "CHR '':'' \<in> set (result_key ?r)"
      by (simp add: result_key_def)
    then have "CHR '':'' \<in> set key"
      by (simp only: r(2))
    note prev = previousLastAppliedAt_key [OF this, of existingState]
    show ?thesis
      using r prev by (auto simp: e')
  qed
  from obs keys dist present entry show ?thesis
    by (simp add: updateState_def)
qed
theorem updateState_observations_witness:
  "manifestHash (updateState ''2026-02-02T08:00:00Z'' earlier_state [exported_result]
      (JStr ''sha256:77aa'')) = JStr ''sha256:77aa'' \<and>
   (\<exists>obs e.
      observations (updateState ''2026-02-02T08:00:00Z'' earlier_state [exported_result]
        (JStr ''sha256:77aa'')) = Some obs \<and>
      fst ` set obs = {''merchant-api:env.exported''} \<and>
      map_of obs ''merchant-api:env.exported'' = Some e \<and>
      status e = ''healthy'' \<and>
      lastValidatedAt e = JStr ''2026-02-02T08:00:00Z'' \<and>
      lastAppliedAt e = JStr ''2026-02-01T12:09:42Z'')"
proof -
  let ?next = "updateState ''2026-02-02T08:00:00Z'' earlier_state [exported_result]
      (JStr ''sha256:77aa'')"
  have key: "result_key exported_result = ''merchant-api:env.exported''"
    by (simp add: result_key_def exported_result_def)
  from updateState_observations
    [of "''2026-02-02T08:00:00Z''" earlier_state "[exported_result]" "JStr ''sha256:77aa''"]
  obtain obs where hash: "manifestHash ?next = JStr ''sha256:77aa''"
    and obs: "observations ?next = Some obs"
    and keys: "fst ` set obs = result_key ` set [exported_result]"
    and present: "\<forall>r \<in> set [exported_result]. \<exists>e. map_of obs (result_key r) = Some e"
    and entries: "\<forall>key e. map_of obs key = Some e \<longrightarrow>
         lastValidatedAt e = JStr ''2026-02-02T08:00:00Z'' \<and>
         lastAppliedAt e =
           (case observations earlier_state of
              None \<Rightarrow> JNull
            | Some previous \<Rightarrow> (case map_of previous key of
                                  Some old \<Rightarrow> lastAppliedAt old
                                | None \<Rightarrow> JNull)) \<and>
         (\<exists>r \<in> set [exported_result]. result_key r = key \<and>
            r = last (filter (\<lambda>r. result_key r = key) [exported_result]) \<and>
            status e = status (observation r) \<and>
            evidence e = evidence (observation r))"
    by blast
  from present obtain e where e: "map_of obs ''merchant-api:env.exported'' = Some e"
    by (auto simp: key)
  from entries e have "lastValidatedAt e = JStr ''2026-02-02T08:00:00Z''"
    and "lastAppliedAt e = JStr ''2026-02-01T12:09:42Z''"
    and "status e = ''healthy''"
    by (auto simp: earlier_state_def exported_result_def)
  with hash obs keys e show ?thesis
    by (simp add: key)
qed

section \<open>The summary\<close>

lemma countResult_fold:
  "foldl countResult s results =
     s\<lparr>healthy := healthy s + length (filter (\<lambda>r. status (observation r) = ''healthy'') results),
       missing := missing s + length (filter (\<lambda>r. status (observation r) = ''missing'') results),
       unknown := unknown s
         + length (filter (\<lambda>r. status (observation r) \<noteq> ''healthy''
                             \<and> status (observation r) \<noteq> ''missing'') results)\<rparr>"
proof (induction results arbitrary: s)
  case Nil
  show ?case by simp
next
  case (Cons r results)
  let ?h = "\<lambda>rs. length (filter (\<lambda>r. status (observation r) = ''healthy'') rs)"
  let ?m = "\<lambda>rs. length (filter (\<lambda>r. status (observation r) = ''missing'') rs)"
  let ?u = "\<lambda>rs. length (filter (\<lambda>r. status (observation r) \<noteq> ''healthy''
                                     \<and> status (observation r) \<noteq> ''missing'') rs)"
  let ?s = "countResult s r"
  have "foldl countResult s (r # results) = foldl countResult ?s results"
    by simp
  also have "\<dots> = ?s\<lparr>healthy := healthy ?s + ?h results, missing := missing ?s + ?m results,
                     unknown := unknown ?s + ?u results\<rparr>"
    by (rule Cons.IH)
  also have "\<dots> = s\<lparr>healthy := healthy s + ?h (r # results),
                    missing := missing s + ?m (r # results),
                    unknown := unknown s + ?u (r # results)\<rparr>"
    by (simp add: countResult_def Let_def)
  finally show ?case .
qed

lemma filter_three_way:
  "length (filter P xs) + length (filter Q xs)
     + length (filter (\<lambda>x. \<not> P x \<and> \<not> Q x) xs) = length xs"
  if "\<And>x. \<not> (P x \<and> Q x)"
  using that by (induction xs) auto

text \<open>
  C9. Whatever the statuses are, a result counts as healthy or missing when its status
  is that string and as unknown in every other case, so the three counts add up to the
  total, which is the length of the list.
\<close>

theorem summarizeResults_counts:
  "healthy (summarizeResults results)
     = length (filter (\<lambda>r. status (observation r) = ''healthy'') results) \<and>
   missing (summarizeResults results)
     = length (filter (\<lambda>r. status (observation r) = ''missing'') results) \<and>
   unknown (summarizeResults results)
     = length (filter (\<lambda>r. status (observation r) \<noteq> ''healthy''
                         \<and> status (observation r) \<noteq> ''missing'') results) \<and>
   total (summarizeResults results) = length results \<and>
   healthy (summarizeResults results) + missing (summarizeResults results)
     + unknown (summarizeResults results) = total (summarizeResults results)"
proof -
  have "length (filter (\<lambda>r. status (observation r) = ''healthy'') results)
      + length (filter (\<lambda>r. status (observation r) = ''missing'') results)
      + length (filter (\<lambda>r. status (observation r) \<noteq> ''healthy''
                          \<and> status (observation r) \<noteq> ''missing'') results)
      = length results"
    by (rule filter_three_way) simp
  then show ?thesis
    by (simp add: summarizeResults_def countResult_fold)
qed

theorem summarizeResults_counts_witness:
  "unknown (summarizeResults
      [exported_result, exported_result\<lparr>observation := \<lparr>status = ''degraded'', evidence = JNull\<rparr>\<rparr>])
     = 1 \<and>
   total (summarizeResults
      [exported_result, exported_result\<lparr>observation := \<lparr>status = ''degraded'', evidence = JNull\<rparr>\<rparr>])
     = 2"
  using summarizeResults_counts
    [of "[exported_result, exported_result\<lparr>observation := \<lparr>status = ''degraded'', evidence = JNull\<rparr>\<rparr>]"]
  by (simp add: exported_result_def)

section \<open>Observation of a state\<close>


lemma is_string_JStr [simp]: "is_string (JStr s)"
  by (simp add: is_string_def)


















section \<open>The dependency graph\<close>

text \<open>
  C5 at two services whose edges have the same key: the edge from \<open>edge->proxy\<close> to \<open>api\<close>
  differs from the edge from \<open>edge\<close> to \<open>proxy->api\<close>, and it is left out of the graph.
\<close>

theorem buildGraph_key_collision:
  "candidateEdges colliding_manifest
     = [\<lparr>edge_from = ''edge'', edge_to = ''proxy->api'', reason = ''requires''\<rparr>,
        \<lparr>edge_from = ''edge->proxy'', edge_to = ''api'', reason = ''requires''\<rparr>] \<and>
   buildGraph colliding_manifest
     = Inr [\<lparr>edge_from = ''edge'', edge_to = ''proxy->api'', reason = ''requires''\<rparr>]"
  by (simp add: buildGraph_def colliding_manifest_def serviceEdges_def addEdge_def
      candidateEdges_def serviceCandidates_def)

lemma offer_requires:
  "foldl (\<lambda>st' required. addEdge st' name required ''requires'') st requires =
     foldl offer st
       (map (\<lambda>required. \<lparr>edge_from = name, edge_to = required, reason = ''requires''\<rparr>) requires)"
  by (induction requires arbitrary: st) (simp_all add: offer_def)

lemma offer_consume: "consumeEdge name st entry = foldl offer st (consumeCandidates name entry)"
  by (simp add: consumeEdge_def consumeCandidates_def offer_def split: jsval.splits)

lemma offer_consumes:
  "foldl (consumeEdge name) st consumes =
     foldl offer st (concat (map (consumeCandidates name) consumes))"
  by (induction consumes arbitrary: st) (simp_all add: offer_consume)

lemma offer_service:
  "serviceEdges st entry =
     (case snd entry of
        None \<Rightarrow> Inl (Runtime TypeError)
      | Some svc \<Rightarrow> Inr (foldl offer st (serviceCandidates entry)))"
  by (simp add: serviceEdges_def serviceCandidates_def Let_def offer_requires offer_consumes
      split: option.splits)

lemma offer_services:
  "graphServices st entries =
     (if \<exists>entry \<in> set entries. snd entry = None then Inl (Runtime TypeError)
      else Inr (foldl offer st (concat (map serviceCandidates entries))))"
proof (induction entries arbitrary: st)
  case Nil
  show ?case by simp
next
  case (Cons entry entries)
  show ?case
  proof (cases "snd entry")
    case None
    then show ?thesis by (simp add: offer_service)
  next
    case (Some svc)
    then have "graphServices st (entry # entries)
        = graphServices (foldl offer st (serviceCandidates entry)) entries"
      by (simp add: offer_service)
    also have "\<dots> = (if \<exists>entry \<in> set entries. snd entry = None then Inl (Runtime TypeError)
        else Inr (foldl offer (foldl offer st (serviceCandidates entry))
                    (concat (map serviceCandidates entries))))"
      by (rule Cons.IH)
    finally show ?thesis using Some by simp
  qed
qed

lemma offer_step:
  "offer (edges, seen) e =
     (if edge_key e \<in> seen then (edges, seen) else (edges @ [e], insert (edge_key e) seen))"
  by (simp add: offer_def addEdge_def edge_key_def Let_def)

lemma offer_invariant:
  assumes "seen = edge_key ` set edges" and "distinct (map edge_key edges)"
    and "foldl offer (edges, seen) es = (edges', seen')"
  shows "seen' = edge_key ` set edges' \<and> distinct (map edge_key edges') \<and>
         set edges' \<subseteq> set edges \<union> set es \<and>
         edge_key ` set edges' = edge_key ` (set edges \<union> set es)"
  using assms
proof (induction es arbitrary: edges seen)
  case Nil
  then show ?case by auto
next
  case (Cons e es)
  show ?case
  proof (cases "edge_key e \<in> seen")
    case True
    with Cons.prems(3) have "foldl offer (edges, seen) es = (edges', seen')"
      by (simp add: offer_step)
    from Cons.IH [OF Cons.prems(1,2) this] True Cons.prems(1) show ?thesis
      by auto
  next
    case False
    with Cons.prems(3)
    have run: "foldl offer (edges @ [e], insert (edge_key e) seen) es = (edges', seen')"
      by (simp add: offer_step)
    have inv: "insert (edge_key e) seen = edge_key ` set (edges @ [e])"
      using Cons.prems(1) by auto
    have dist: "distinct (map edge_key (edges @ [e]))"
      using Cons.prems(1,2) False by auto
    from Cons.IH [OF inv dist run] show ?thesis
      by auto
  qed
qed

text \<open>
  \<open>buildGraph\<close> returns a graph unless a service is \<^verbatim>\<open>null\<close>. What it does with the edges
  it is offered: it keeps the first edge of every key. No two edges of the graph have
  the same key, so no triple is there twice, and every offered edge has its key in the
  graph. Where the keys of the offered edges tell them apart, the graph holds every
  offered triple exactly once; else it drops every later triple whose key was there.
\<close>

lemma buildGraph_returns:
  "buildGraph m =
     (if \<exists>entry \<in> set (services m). snd entry = None then Inl (Runtime TypeError)
      else Inr (fst (foldl offer ([], {}) (candidateEdges m))))"
  by (simp add: buildGraph_def offer_services candidateEdges_def)

lemma buildGraph_keys:
  assumes "buildGraph m = Inr graph"
  shows "distinct (map edge_key graph) \<and>
         set graph \<subseteq> set (candidateEdges m) \<and>
         edge_key ` set graph = edge_key ` set (candidateEdges m)"
proof -
  obtain edges seen where run: "foldl offer ([], {}) (candidateEdges m) = (edges, seen)"
    by (cases "foldl offer ([], {}) (candidateEdges m)")
  with assms have graph: "graph = edges"
    by (simp add: buildGraph_returns split: if_splits)
  from offer_invariant [OF _ _ run] show ?thesis
    by (simp add: graph)
qed

lemma buildGraph_injective_keys:
  assumes "buildGraph m = Inr graph"
    and "inj_on edge_key (set (candidateEdges m))"
  shows "distinct graph \<and> set graph = set (candidateEdges m)"
proof -
  note keys = buildGraph_keys [OF assms(1)]
  from keys have "distinct graph"
    by (simp add: distinct_map)
  moreover have "set (candidateEdges m) \<subseteq> set graph"
  proof
    fix e
    assume e: "e \<in> set (candidateEdges m)"
    with keys obtain e' where e': "e' \<in> set graph" "edge_key e' = edge_key e"
      by (metis imageE imageI)
    with keys e assms(2) have "e' = e"
      by (auto dest: inj_onD)
    with e' show "e \<in> set graph" by simp
  qed
  ultimately show ?thesis using keys by blast
qed

lemma edge_key_reason:
  "edge_key \<lparr>edge_from = a, edge_to = b, reason = r\<rparr>
     = edge_key \<lparr>edge_from = a, edge_to = b, reason = r'\<rparr> \<longleftrightarrow> r = r'"
  by (simp add: edge_key_def)

section \<open>Saving and loading the state\<close>

subsection \<open>The text of a value is read back\<close>

lemma of_char_digit_char: "d < 10 \<Longrightarrow> of_char (digit_char d) = 48 + d"
  by (simp add: digit_char_def)

lemma is_digit_digit_char: "d < 10 \<Longrightarrow> is_digit (digit_char d)"
  by (simp add: is_digit_def of_char_digit_char)

lemma digits_all: "list_all is_digit (digits n)"
proof (induction n rule: digits.induct)
  case (1 n)
  show ?case
  proof (cases "n < 10")
    case True
    then show ?thesis by (simp add: digits.simps [of n] is_digit_digit_char)
  next
    case False
    with 1 show ?thesis by (simp add: digits.simps [of n] is_digit_digit_char)
  qed
qed

lemma digits_nonempty: "digits n \<noteq> []"
  by (subst digits.simps) simp

lemma digits_value_snoc:
  "digits_value (ds @ [c]) = 10 * digits_value ds + (of_char c - 48)"
  by (simp add: digits_value_def)

lemma digits_value_digits: "digits_value (digits n) = n"
proof (induction n rule: digits.induct)
  case (1 n)
  show ?case
  proof (cases "n < 10")
    case True
    then show ?thesis
      by (simp add: digits.simps [of n] digits_value_def of_char_digit_char)
  next
    case False
    with 1 have "digits_value (digits (n div 10)) = n div 10" by simp
    with False show ?thesis
      by (simp add: digits.simps [of n] digits_value_snoc of_char_digit_char)
  qed
qed

lemma hd_digits: "hd (digits n) = CHR ''0'' \<Longrightarrow> n = 0"
proof (induction n rule: digits.induct)
  case (1 n)
  show ?case
  proof (cases "n < 10")
    case True
    with 1(2) have "digit_char n = CHR ''0''" by (simp add: digits.simps [of n])
    then have "of_char (digit_char n) = (of_char (CHR ''0'') :: nat)" by simp
    with True show ?thesis by (simp add: of_char_digit_char)
  next
    case False
    with 1(2) have "hd (digits (n div 10)) = CHR ''0''"
      by (simp add: digits.simps [of n] digits_nonempty)
    with 1(1) False have "n div 10 = 0" by simp
    with False show ?thesis by simp
  qed
qed

lemma digits_zero: "digits 0 = ''0''"
proof -
  have "char_of (of_char (CHR ''0'') :: nat) = CHR ''0''" by (rule char_of_char)
  then show ?thesis by (simp add: digits.simps [of 0] digit_char_def)
qed

lemma digits_canonical: "hd (digits n) = CHR ''0'' \<longrightarrow> length (digits n) = 1"
  using hd_digits [of n] by (auto simp: digits_zero)

lemma delimited_not_digit:
  assumes "delimited rest"
  shows "takeWhile is_digit rest = []" and "dropWhile is_digit rest = rest"
    and "scan_fraction rest = Some ([], rest)" and "scan_exponent rest = Some ([], rest)"
  using assms
  by (cases rest; auto simp: delimited_def is_digit_def scan_fraction_def scan_exponent_def)+

lemma is_digit_not_minus: "is_digit c \<Longrightarrow> c \<noteq> CHR ''-''"
  by (auto simp: is_digit_def)

lemma scan_digits:
  assumes "delimited rest"
  shows "takeWhile is_digit (digits n @ rest) = digits n"
    and "dropWhile is_digit (digits n @ rest) = rest"
proof -
  have all: "\<And>x. x \<in> set (digits n) \<Longrightarrow> is_digit x"
    using digits_all [of n] by (simp add: list_all_iff)
  show "takeWhile is_digit (digits n @ rest) = digits n"
    by (simp add: takeWhile_append2 [OF all] delimited_not_digit [OF assms])
  show "dropWhile is_digit (digits n @ rest) = rest"
    by (simp add: dropWhile_append2 [OF all] delimited_not_digit [OF assms])
qed

lemma scan_number_digits:
  assumes "delimited rest"
  shows "scan_number (digits n @ rest) = Some (digits n, True, rest)"
    and "scan_number (CHR ''-'' # digits n @ rest) = Some (CHR ''-'' # digits n, True, rest)"
proof -
  obtain d ds where ds: "digits n = d # ds"
    using digits_nonempty [of n] by (cases "digits n") auto
  with digits_all [of n] have "is_digit d" by simp
  then have plus: "d \<noteq> CHR ''-''" by (rule is_digit_not_minus)
  have canonical: "\<not> (hd (digits n) = CHR ''0'' \<and> length (digits n) > 1)"
    using digits_canonical [of n] by auto
  have "scan_number (digits n @ rest) =
      (let sign = []; s1 = digits n @ rest; whole = takeWhile is_digit s1
       in if whole = [] \<or> (hd whole = CHR ''0'' \<and> length whole > 1) then None
          else (case scan_fraction (dropWhile is_digit s1) of
                  None \<Rightarrow> None
                | Some (fraction, s2) \<Rightarrow>
                    (case scan_exponent s2 of
                       None \<Rightarrow> None
                     | Some (exponent, s3) \<Rightarrow>
                         Some (sign @ whole @ fraction @ exponent,
                               fraction = [] \<and> exponent = [], s3))))"
    using plus by (simp add: scan_number_def ds)
  also have "\<dots> = Some (digits n, True, rest)"
    using canonical
    by (simp add: Let_def scan_digits [OF assms] delimited_not_digit [OF assms] digits_nonempty)
  finally show "scan_number (digits n @ rest) = Some (digits n, True, rest)" .
  have "scan_number (CHR ''-'' # digits n @ rest) =
      (let sign = ''-''; s1 = digits n @ rest; whole = takeWhile is_digit s1
       in if whole = [] \<or> (hd whole = CHR ''0'' \<and> length whole > 1) then None
          else (case scan_fraction (dropWhile is_digit s1) of
                  None \<Rightarrow> None
                | Some (fraction, s2) \<Rightarrow>
                    (case scan_exponent s2 of
                       None \<Rightarrow> None
                     | Some (exponent, s3) \<Rightarrow>
                         Some (sign @ whole @ fraction @ exponent,
                               fraction = [] \<and> exponent = [], s3))))"
    by (simp add: scan_number_def)
  also have "\<dots> = Some (CHR ''-'' # digits n, True, rest)"
    using canonical
    by (simp add: Let_def scan_digits [OF assms] delimited_not_digit [OF assms] digits_nonempty)
  finally show "scan_number (CHR ''-'' # digits n @ rest) = Some (CHR ''-'' # digits n, True, rest)" .
qed

lemma parse_number_scanned:
  assumes "scan_number s = Some (literal, True, rest)"
    and "digits_value (if hd literal = CHR ''-'' then tl literal else literal) = n"
    and "n \<le> 9007199254740991"
  shows "parse_number w s
      = Some (JNum (Finite (if hd literal = CHR ''-'' then - of_nat n else of_nat n)), rest)"
  using assms by (auto simp: parse_number_def Let_def split: if_splits)

lemma safe_integer_nat:
  assumes "safe_integer q"
  shows "nat \<bar>\<lfloor>q\<rfloor>\<bar> \<le> 9007199254740991"
    and "q < 0 \<Longrightarrow> - of_nat (nat \<bar>\<lfloor>q\<rfloor>\<bar>) = q"
    and "\<not> q < 0 \<Longrightarrow> of_nat (nat \<bar>\<lfloor>q\<rfloor>\<bar>) = q"
proof -
  from assms have whole: "of_int \<lfloor>q\<rfloor> = q" and bound: "\<bar>q\<bar> \<le> 9007199254740991"
    by (simp_all add: safe_integer_def)
  have "\<bar>\<lfloor>q\<rfloor>\<bar> = \<lfloor>\<bar>q\<bar>\<rfloor>"
    by (metis whole floor_of_int of_int_abs)
  also have "\<dots> \<le> \<lfloor>9007199254740991 :: rat\<rfloor>"
    using bound by (rule floor_mono)
  finally show "nat \<bar>\<lfloor>q\<rfloor>\<bar> \<le> 9007199254740991" by simp
  {
    assume "q < 0"
    then have "\<lfloor>q\<rfloor> < 0" by (simp add: floor_less_iff)
    then have "- (of_nat (nat \<bar>\<lfloor>q\<rfloor>\<bar>) :: rat) = of_int \<lfloor>q\<rfloor>" by simp
    then show "- of_nat (nat \<bar>\<lfloor>q\<rfloor>\<bar>) = q" by (simp only: whole)
  }
  {
    assume "\<not> q < 0"
    then have "0 \<le> \<lfloor>q\<rfloor>" by simp
    then have "(of_nat (nat \<bar>\<lfloor>q\<rfloor>\<bar>) :: rat) = of_int \<lfloor>q\<rfloor>" by simp
    then show "of_nat (nat \<bar>\<lfloor>q\<rfloor>\<bar>) = q" by (simp only: whole)
  }
qed

lemma parse_number_text:
  assumes "safe_integer q" and "delimited rest"
  shows "parse_number w (number_text w q @ rest) = Some (JNum (Finite q), rest)"
proof -
  define n where "n = nat \<bar>\<lfloor>q\<rfloor>\<bar>"
  note safe = safe_integer_nat [OF assms(1), folded n_def]
  obtain d ds where ds: "digits n = d # ds"
    using digits_nonempty [of n] by (cases "digits n") auto
  with digits_all [of n] have "is_digit d" by simp
  then have plus: "d \<noteq> CHR ''-''" by (rule is_digit_not_minus)
  show ?thesis
  proof (cases "q < 0")
    case True
    with assms(1) have printed: "number_text w q = CHR ''-'' # digits n"
      by (simp add: number_text_def n_def)
    have "parse_number w (CHR ''-'' # digits n @ rest)
        = Some (JNum (Finite (if hd (CHR ''-'' # digits n) = CHR ''-'' then - of_nat n else of_nat n)), rest)"
      by (rule parse_number_scanned [OF scan_number_digits(2) [OF assms(2)] _ safe(1)])
         (simp add: digits_value_digits)
    then show ?thesis
      unfolding printed using safe(2) [OF True] by simp
  next
    case False
    with assms(1) have printed: "number_text w q = digits n"
      by (simp add: number_text_def n_def)
    have "parse_number w (digits n @ rest)
        = Some (JNum (Finite (if hd (digits n) = CHR ''-'' then - of_nat n else of_nat n)), rest)"
      by (rule parse_number_scanned [OF scan_number_digits(1) [OF assms(2)] _ safe(1)])
         (use digits_value_digits [of n] in \<open>simp add: ds plus\<close>)
    then show ?thesis
      unfolding printed using safe(3) [OF False] plus by (simp add: ds)
  qed
qed

lemma hex_value_hex_char: "d < 16 \<Longrightarrow> hex_value (hex_char d) = Some d"
  by (auto simp: hex_value_def hex_char_def Let_def)

lemma hex_value_zero: "hex_value CHR ''0'' = Some 0"
  by (simp add: hex_value_def)

lemma parse_chars_escape:
  "parse_chars (escape c @ s) =
     (case parse_chars s of None \<Rightarrow> None | Some (str, r) \<Rightarrow> Some (c # str, r))"
proof -
  consider (quote) "c = CHR 0x22" | (backslash) "c = CHR 0x5C"
    | (short) "c \<in> {CHR 0x08, CHR 0x0C, CHR 0x0A, CHR 0x0D, CHR 0x09}"
    | (control) "c \<noteq> CHR 0x22" "c \<noteq> CHR 0x5C"
        "c \<notin> {CHR 0x08, CHR 0x0C, CHR 0x0A, CHR 0x0D, CHR 0x09}" "of_char c < (32 :: nat)"
    | (literal) "c \<noteq> CHR 0x22" "c \<noteq> CHR 0x5C" "\<not> of_char c < (32 :: nat)"
    by auto
  then show ?thesis
  proof cases
    case quote
    then show ?thesis by (simp add: escape_def unescape_def split: option.splits)
  next
    case backslash
    then show ?thesis by (simp add: escape_def unescape_def split: option.splits)
  next
    case short
    then show ?thesis by (auto simp: escape_def unescape_def split: option.splits)
  next
    case control
    let ?n = "of_char c :: nat"
    have hi: "hex_value (hex_char (?n div 16)) = Some (?n div 16)"
      using control(4) by (intro hex_value_hex_char) simp
    have lo: "hex_value (hex_char (?n mod 16)) = Some (?n mod 16)"
      by (intro hex_value_hex_char) simp
    have "char_of (16 * (?n div 16) + ?n mod 16) = char_of ?n" by simp
    then have same: "char_of (16 * (?n div 16) + ?n mod 16) = c" by (simp only: char_of_char)
    from control have "escape c = [CHR 0x5C, CHR ''u'', CHR ''0'', CHR ''0'',
        hex_char (?n div 16), hex_char (?n mod 16)]"
      by (simp add: escape_def)
    then show ?thesis
      by (simp add: hex_value_zero hi lo same split: option.splits)
  next
    case literal
    then have "escape c = [c]" by (auto simp: escape_def)
    with literal show ?thesis by (simp split: option.splits)
  qed
qed

lemma parse_chars_quoted:
  "parse_chars (concat (map escape s) @ CHR 0x22 # rest) = Some (s, rest)"
proof (induction s)
  case Nil
  show ?case by simp
next
  case (Cons c s)
  have "parse_chars (concat (map escape (c # s)) @ CHR 0x22 # rest)
      = parse_chars (escape c @ (concat (map escape s) @ CHR 0x22 # rest))"
    by simp
  also have "\<dots> = Some (c # s, rest)"
    unfolding parse_chars_escape by (simp add: Cons.IH)
  finally show ?case .
qed

lemma skip_ws_replicate: "skip_ws (replicate n CHR '' '' @ s) = skip_ws s"
  by (induction n) (simp_all add: skip_ws_def is_ws_def)

lemma skip_ws_newline: "skip_ws (newline k @ s) = skip_ws s"
proof -
  have "skip_ws (newline k @ s) = skip_ws (replicate (2 * k) CHR '' '' @ s)"
    by (simp add: newline_def skip_ws_def is_ws_def)
  then show ?thesis by (simp only: skip_ws_replicate)
qed

lemma skip_ws_space: "skip_ws (CHR '' '' # s) = skip_ws s"
  by (simp add: skip_ws_def is_ws_def)

lemma skip_ws_other: "\<not> is_ws c \<Longrightarrow> skip_ws (c # s) = c # s"
  by (simp add: skip_ws_def)

lemma parse_value_skip_ws: "skip_ws s = skip_ws s' \<Longrightarrow> parse_value w n s = parse_value w n s'"
  by (cases n) simp_all

lemma parse_members_skip_ws:
  "skip_ws s = skip_ws s' \<Longrightarrow> parse_members w n s = parse_members w n s'"
  by (cases n) simp_all

lemma parse_elements_skip_ws:
  "skip_ws s = skip_ws s' \<Longrightarrow> parse_elements w n s = parse_elements w n s'"
  by (cases n) (simp_all add: parse_value_skip_ws [of s s'])

lemma serialize_None: "serialize w k v = None \<longleftrightarrow> v = JUndefined"
  by (cases v) simp_all

text \<open>The head of a text.\<close>

lemma is_digit_head:
  "is_digit c \<Longrightarrow> \<not> is_ws c \<and> c \<noteq> CHR '']'' \<and> c \<noteq> CHR ''}'' \<and> c \<noteq> CHR ''['' \<and> c \<noteq> CHR ''{''
     \<and> c \<noteq> CHR 0x22 \<and> c \<noteq> CHR ''n'' \<and> c \<noteq> CHR ''t'' \<and> c \<noteq> CHR ''f''"
  by (auto simp: is_digit_def is_ws_def)

lemma number_text_head:
  assumes "safe_integer q"
  shows "\<exists>c cs. number_text w q = c # cs \<and> (c = CHR ''-'' \<or> is_digit c)"
proof -
  obtain d ds where ds: "digits (nat \<bar>\<lfloor>q\<rfloor>\<bar>) = d # ds"
    using digits_nonempty [of "nat \<bar>\<lfloor>q\<rfloor>\<bar>"] by (cases "digits (nat \<bar>\<lfloor>q\<rfloor>\<bar>)") auto
  with digits_all [of "nat \<bar>\<lfloor>q\<rfloor>\<bar>"] have "is_digit d" by simp
  with assms ds show ?thesis by (simp add: number_text_def)
qed

lemma opens_minus_digit: "c = CHR ''-'' \<or> is_digit c \<Longrightarrow> opens c"
  by (auto simp: opens_def is_ws_def is_digit_def)

lemma serialize_head:
  assumes "plain v" and "serialize w k v = Some t"
  shows "\<exists>c cs. t = c # cs \<and> opens c"
proof (cases v)
  case (JNum n)
  show ?thesis
  proof (cases n)
    case (Finite q)
    with JNum assms(1) have "safe_integer q" by simp
    from number_text_head [OF this, of w] obtain c cs
      where printed: "number_text w q = c # cs" and "c = CHR ''-'' \<or> is_digit c" by blast
    then have "opens c" by (intro opens_minus_digit)
    moreover from JNum Finite assms(2) printed have "t = c # cs" by simp
    ultimately show ?thesis by blast
  qed (use JNum assms(2) in \<open>auto simp: opens_def is_ws_def\<close>)
qed (use assms(2) in \<open>auto simp: opens_def is_ws_def QuoteJSONString_def wrap_def\<close>)

lemma insert_index_last:
  "\<forall>a \<in> set acc. \<exists>j. array_index (fst a) = Some j \<and> j < i
     \<Longrightarrow> insert_index i key v acc = acc @ [(key, v)]"
  by (induction acc) auto

lemma CreateDataProperty_new:
  assumes "distinct (map fst (acc @ [p]))"
    and "sorted_wrt index_before (map fst (acc @ [p]))"
  shows "CreateDataProperty acc p = acc @ [p]"
proof (cases "array_index (fst p)")
  case None
  with assms(1) show ?thesis by (simp add: CreateDataProperty_def)
next
  case (Some i)
  have "\<forall>a \<in> set acc. \<exists>j. array_index (fst a) = Some j \<and> j < i"
  proof
    fix a
    assume "a \<in> set acc"
    with assms(2) have "index_before (fst a) (fst p)"
      by (auto simp: sorted_wrt_append)
    with Some show "\<exists>j. array_index (fst a) = Some j \<and> j < i"
      by (cases "array_index (fst a)") (simp_all add: index_before_def)
  qed
  from insert_index_last [OF this, of "fst p" "snd p"] Some assms(1) show ?thesis
    by (simp add: CreateDataProperty_def)
qed

lemma foldl_CreateDataProperty:
  "distinct (map fst (acc @ ps)) \<Longrightarrow> sorted_wrt index_before (map fst (acc @ ps))
     \<Longrightarrow> foldl CreateDataProperty acc ps = acc @ ps"
proof (induction ps arbitrary: acc)
  case Nil
  show ?case by simp
next
  case (Cons p ps)
  from Cons.prems have "distinct (map fst (acc @ [p]))"
    and "sorted_wrt index_before (map fst (acc @ [p]))"
    by (auto simp: sorted_wrt_append)
  then have step: "CreateDataProperty acc p = acc @ [p]"
    by (rule CreateDataProperty_new)
  have "foldl CreateDataProperty acc (p # ps) = foldl CreateDataProperty (acc @ [p]) ps"
    by (simp add: step)
  also have "\<dots> = (acc @ [p]) @ ps"
    using Cons.prems by (intro Cons.IH) simp_all
  finally show ?case by simp
qed

lemma properties_read_back:
  assumes "distinct (map fst kvs)" and "sorted_wrt index_before (map fst kvs)"
  shows "foldl CreateDataProperty []
           (map (\<lambda>kv. (fst kv, f (snd kv))) (filter P kvs))
         = map (\<lambda>kv. (fst kv, f (snd kv))) (filter P kvs)"
proof -
  have keys: "map fst (map (\<lambda>kv. (fst kv, f (snd kv))) (filter P kvs)) = map fst (filter P kvs)"
    by simp
  have "distinct (map fst (filter P kvs))"
    using assms(1) by (simp add: distinct_map_filter)
  moreover have "sorted_wrt index_before (map fst (filter P kvs))"
    using assms(2) by (induction kvs) auto
  ultimately show ?thesis
    using foldl_CreateDataProperty [of "[]" "map (\<lambda>kv. (fst kv, f (snd kv))) (filter P kvs)"]
    by (simp only: keys append_Nil)
qed

lemma parse_value_bracket:
  "parse_value w (Suc n) (CHR ''['' # cs) =
     (case skip_ws cs of
        [] \<Rightarrow> None
      | d # ds \<Rightarrow>
          if d = CHR '']'' then Some (JArr [], ds)
          else (case parse_elements w n cs of
                  None \<Rightarrow> None
                | Some (vs, r) \<Rightarrow> Some (JArr vs, r)))"
  by (simp add: skip_ws_def is_ws_def)

lemma parse_value_brace:
  "parse_value w (Suc n) (CHR ''{'' # cs) =
     (case skip_ws cs of
        [] \<Rightarrow> None
      | d # ds \<Rightarrow>
          if d = CHR ''}'' then Some (JObj [], ds)
          else (case parse_members w n cs of
                  None \<Rightarrow> None
                | Some (ps, r) \<Rightarrow> Some (JObj (foldl CreateDataProperty [] ps), r)))"
  by (simp add: skip_ws_def is_ws_def)

lemma parse_value_quote:
  "parse_value w (Suc n) (CHR 0x22 # cs) =
     (case parse_chars cs of None \<Rightarrow> None | Some (str, r) \<Rightarrow> Some (JStr str, r))"
  by (simp add: skip_ws_def is_ws_def)

lemma parse_value_literal:
  "parse_value w (Suc n) (''null'' @ rest) = Some (JNull, rest)"
  "parse_value w (Suc n) (''true'' @ rest) = Some (JBool True, rest)"
  "parse_value w (Suc n) (''false'' @ rest) = Some (JBool False, rest)"
  by (simp_all add: skip_ws_def is_ws_def)

lemma parse_value_number:
  assumes "c = CHR ''-'' \<or> is_digit c"
  shows "parse_value w (Suc n) (c # cs) = parse_number w (c # cs)"
proof -
  from assms have "\<not> is_ws c" "c \<noteq> CHR ''[''" "c \<noteq> CHR ''{''" "c \<noteq> CHR 0x22"
    "c \<noteq> CHR ''n''" "c \<noteq> CHR ''t''" "c \<noteq> CHR ''f''"
    by (auto simp: is_digit_def is_ws_def)
  then show ?thesis
    by (simp add: skip_ws_def)
qed

lemma parse_elements_step:
  "parse_elements w (Suc n) s =
     (case parse_value w n s of
        None \<Rightarrow> None
      | Some (v, r) \<Rightarrow>
          (case skip_ws r of
             [] \<Rightarrow> None
           | c # cs \<Rightarrow>
               if c = CHR '']'' then Some ([v], cs)
               else if c = CHR '','' then
                 (case parse_elements w n cs of
                    None \<Rightarrow> None
                  | Some (vs, r') \<Rightarrow> Some (v # vs, r'))
               else None))"
  by simp

lemma parse_members_step:
  assumes "parse_chars qs = Some (key, CHR '':'' # cs)"
    and "parse_value w n cs = Some (v, r1)"
  shows "parse_members w (Suc n) (CHR 0x22 # qs) =
     (case skip_ws r1 of
        [] \<Rightarrow> None
      | d # ds \<Rightarrow>
          if d = CHR ''}'' then Some ([(key, v)], ds)
          else if d = CHR '','' then
            (case parse_members w n ds of
               None \<Rightarrow> None
             | Some (ps, r2) \<Rightarrow> Some ((key, v) # ps, r2))
          else None)"
  using assms by (simp add: skip_ws_def is_ws_def)

declare parse_value.simps [simp del] parse_elements.simps [simp del] parse_members.simps [simp del]

lemma delimited_simps:
  "delimited []" "delimited (CHR '','' # s)" "delimited (newline k @ s)"
  by (simp_all add: delimited_def newline_def)

lemma skip_ws_close:
  "skip_ws (newline k @ CHR '']'' # s) = CHR '']'' # s"
  "skip_ws (newline k @ CHR ''}'' # s) = CHR ''}'' # s"
  "skip_ws (CHR '','' # s) = CHR '','' # s"
  by (simp_all add: skip_ws_newline skip_ws_other is_ws_def)

lemma length_separated_Cons:
  "length x \<le> length (separated sep (x # xs))"
  "xs \<noteq> [] \<Longrightarrow> length x + length sep + length (separated sep xs) = length (separated sep (x # xs))"
  by (cases xs; simp)+

text \<open>An element of an array.\<close>

lemma parse_value_element:
  assumes IH: "\<And>n rest t. serialize w k x = Some t \<Longrightarrow> length t \<le> n \<Longrightarrow> delimited rest
      \<Longrightarrow> parse_value w n (t @ rest) = Some (json_image x, rest)"
    and "length (case serialize w k x of None \<Rightarrow> ''null'' | Some t \<Rightarrow> t) \<le> n"
    and "delimited rest"
  shows "parse_value w n ((case serialize w k x of None \<Rightarrow> ''null'' | Some t \<Rightarrow> t) @ rest)
      = Some (json_image x, rest)"
proof (cases "serialize w k x")
  case None
  then have x: "x = JUndefined" by (simp add: serialize_None)
  from assms(2) None obtain m where "n = Suc m" by (cases n) auto
  with None x show ?thesis
    using parse_value_literal(1) [of w m rest] by simp
next
  case (Some t)
  with assms show ?thesis by simp
qed

lemma parse_elements_separated:
  assumes "\<And>x n rest t. x \<in> set xs \<Longrightarrow> serialize w k x = Some t \<Longrightarrow> length t \<le> n
      \<Longrightarrow> delimited rest \<Longrightarrow> parse_value w n (t @ rest) = Some (json_image x, rest)"
    and "list_all plain xs" and "xs \<noteq> []"
    and "length (separated (CHR '','' # newline k)
           (map (\<lambda>x. case serialize w k x of None \<Rightarrow> ''null'' | Some t \<Rightarrow> t) xs)) < n"
  shows "parse_elements w n
           (newline k @ separated (CHR '','' # newline k)
              (map (\<lambda>x. case serialize w k x of None \<Rightarrow> ''null'' | Some t \<Rightarrow> t) xs)
            @ newline j @ CHR '']'' # rest)
         = Some (map json_image xs, rest)"
  using assms
proof (induction xs arbitrary: n)
  case Nil
  then show ?case by simp
next
  case (Cons x xs)
  let ?elem = "\<lambda>x. case serialize w k x of None \<Rightarrow> ''null'' | Some t \<Rightarrow> t"
  let ?sep = "CHR '','' # newline k"
  let ?tail = "newline j @ CHR '']'' # rest"
  from Cons.prems(4) obtain m where n: "n = Suc m" by (cases n) auto
  with Cons.prems(4) have m: "length (separated ?sep (map ?elem (x # xs))) \<le> m" by simp
  have x: "\<And>n rest t. serialize w k x = Some t \<Longrightarrow> length t \<le> n \<Longrightarrow> delimited rest
      \<Longrightarrow> parse_value w n (t @ rest) = Some (json_image x, rest)"
    by (rule Cons.prems(1)) simp_all
  have fits: "length (?elem x) \<le> m"
    using m length_separated_Cons(1) [of "?elem x" ?sep "map ?elem xs"] by simp
  have skip: "parse_elements w i (newline k @ s) = parse_elements w i s" for s i
    by (rule parse_elements_skip_ws) (simp add: skip_ws_newline)
  show ?case
  proof (cases xs)
    case Nil
    have "parse_value w m (?elem x @ ?tail) = Some (json_image x, ?tail)"
      by (rule parse_value_element [OF x fits]) (simp_all add: delimited_simps)
    then have "parse_elements w (Suc m) (?elem x @ ?tail) = Some ([json_image x], rest)"
      by (simp add: parse_elements_step skip_ws_close)
    with Nil show ?thesis
      by (simp add: skip n)
  next
    case (Cons y ys)
    let ?more = "newline k @ separated ?sep (map ?elem xs) @ ?tail"
    have "length (?elem x) + length ?sep + length (separated ?sep (map ?elem xs))
        = length (separated ?sep (map ?elem (x # xs)))"
      using Cons length_separated_Cons(2) [of "map ?elem xs" "?elem x" ?sep] by simp
    with m have less: "length (separated ?sep (map ?elem xs)) < m" by simp
    have rest: "parse_elements w m ?more = Some (map json_image xs, rest)"
      using Cons.prems(2) Cons less
      by (intro Cons.IH Cons.prems(1)) simp_all
    have "parse_value w m (?elem x @ CHR '','' # ?more) = Some (json_image x, CHR '','' # ?more)"
      by (rule parse_value_element [OF x fits]) (simp_all add: delimited_simps)
    then have "parse_elements w (Suc m) (?elem x @ CHR '','' # ?more)
        = Some (json_image x # map json_image xs, rest)"
      by (simp add: parse_elements_step skip_ws_close rest)
    with Cons show ?thesis
      by (simp add: skip n)
  qed
qed

lemma parse_members_separated:
  assumes "\<And>p n rest t. p \<in> set ps \<Longrightarrow> serialize w k (snd p) = Some t \<Longrightarrow> length t \<le> n
      \<Longrightarrow> delimited rest \<Longrightarrow> parse_value w n (t @ rest) = Some (json_image (snd p), rest)"
    and "list_all (\<lambda>p. snd p \<noteq> JUndefined) ps" and "ps \<noteq> []"
    and "length (separated (CHR '','' # newline k)
           (map (\<lambda>p. QuoteJSONString (fst p) @ '': '' @ the (serialize w k (snd p))) ps)) < n"
  shows "parse_members w n
           (newline k @ separated (CHR '','' # newline k)
              (map (\<lambda>p. QuoteJSONString (fst p) @ '': '' @ the (serialize w k (snd p))) ps)
            @ newline j @ CHR ''}'' # rest)
         = Some (map (\<lambda>p. (fst p, json_image (snd p))) ps, rest)"
  using assms
proof (induction ps arbitrary: n)
  case Nil
  then show ?case by simp
next
  case (Cons p ps)
  let ?member = "\<lambda>p. QuoteJSONString (fst p) @ '': '' @ the (serialize w k (snd p))"
  let ?sep = "CHR '','' # newline k"
  let ?tail = "newline j @ CHR ''}'' # rest"
  from Cons.prems(4) obtain m where n: "n = Suc m" by (cases n) auto
  with Cons.prems(4) have m: "length (separated ?sep (map ?member (p # ps))) \<le> m" by simp
  from Cons.prems(2) obtain t where t: "serialize w k (snd p) = Some t"
    by (cases "serialize w k (snd p)") (auto simp: serialize_None)
  have p: "\<And>n rest. length t \<le> n \<Longrightarrow> delimited rest
      \<Longrightarrow> parse_value w n (t @ rest) = Some (json_image (snd p), rest)"
    by (rule Cons.prems(1) [OF _ t]) simp_all
  have member: "?member p @ s
      = CHR 0x22 # concat (map escape (fst p)) @ CHR 0x22 # CHR '':'' # CHR '' '' # t @ s" for s
    by (simp add: QuoteJSONString_def t)
  have fits: "length t \<le> m"
    using m length_separated_Cons(1) [of "?member p" ?sep "map ?member ps"]
    by (simp add: t)
  have skip: "parse_members w i (newline k @ s) = parse_members w i s" for s i
    by (rule parse_members_skip_ws) (simp add: skip_ws_newline)
  have key: "parse_chars (concat (map escape (fst p)) @ CHR 0x22 # CHR '':'' # CHR '' '' # t @ s)
      = Some (fst p, CHR '':'' # CHR '' '' # t @ s)" for s
    by (rule parse_chars_quoted)
  have space: "parse_value w i (CHR '' '' # s) = parse_value w i s" for s i
    by (rule parse_value_skip_ws) (simp add: skip_ws_space)
  show ?case
  proof (cases ps)
    case Nil
    have "parse_value w m (CHR '' '' # t @ ?tail) = Some (json_image (snd p), ?tail)"
      unfolding space by (rule p [OF fits]) (simp add: delimited_simps)
    from parse_members_step [OF key this]
    have "parse_members w (Suc m) (?member p @ ?tail) = Some ([(fst p, json_image (snd p))], rest)"
      unfolding member by (simp add: skip_ws_close)
    with Nil show ?thesis
      by (simp add: skip n)
  next
    case (Cons q qs)
    let ?more = "newline k @ separated ?sep (map ?member ps) @ ?tail"
    have "length (?member p) + length ?sep + length (separated ?sep (map ?member ps))
        = length (separated ?sep (map ?member (p # ps)))"
      using Cons length_separated_Cons(2) [of "map ?member ps" "?member p" ?sep] by simp
    with m have less: "length (separated ?sep (map ?member ps)) < m" by simp
    have rest: "parse_members w m ?more = Some (map (\<lambda>p. (fst p, json_image (snd p))) ps, rest)"
      using Cons.prems(2) Cons less
      by (intro Cons.IH Cons.prems(1)) simp_all
    have "parse_value w m (CHR '' '' # t @ CHR '','' # ?more)
        = Some (json_image (snd p), CHR '','' # ?more)"
      unfolding space by (rule p [OF fits]) (simp add: delimited_simps)
    from parse_members_step [OF key this] rest
    have "parse_members w (Suc m) (?member p @ CHR '','' # ?more)
        = Some ((fst p, json_image (snd p)) # map (\<lambda>p. (fst p, json_image (snd p))) ps, rest)"
      unfolding member by (simp add: skip_ws_close)
    with Cons show ?thesis
      by (simp add: skip n)
  qed
qed

lemma members_defined:
  "concat (map (\<lambda>kv. case serialize w k (snd kv) of
                        None \<Rightarrow> []
                      | Some t \<Rightarrow> [QuoteJSONString (fst kv) @ '': '' @ t]) kvs)
     = map (\<lambda>p. QuoteJSONString (fst p) @ '': '' @ the (serialize w k (snd p)))
         (filter (\<lambda>kv. snd kv \<noteq> JUndefined) kvs)"
proof (induction kvs)
  case Nil
  show ?case by simp
next
  case (Cons kv kvs)
  show ?case
  proof (cases "serialize w k (snd kv)")
    case None
    then have "snd kv = JUndefined" by (simp add: serialize_None)
    with None Cons.IH show ?thesis by simp
  next
    case (Some t)
    then have "snd kv \<noteq> JUndefined" by auto
    with Some Cons.IH show ?thesis by simp
  qed
qed

lemma separated_head:
  assumes "items \<noteq> []" and "\<forall>t \<in> set items. \<exists>c cs. t = c # cs \<and> opens c"
  shows "\<exists>c cs. separated sep items @ s = c # cs \<and> opens c"
proof (cases items)
  case Nil
  with assms(1) show ?thesis by simp
next
  case (Cons t ts)
  with assms(2) obtain c cs where "t = c # cs" "opens c" by auto
  with Cons show ?thesis by (cases ts) auto
qed

lemma wrap_length:
  "items \<noteq> [] \<Longrightarrow>
     length (wrap opening closing k items)
       = length (separated (CHR '','' # newline (Suc k)) items) + 2 * k + 2 * Suc k + 4"
  by (simp add: wrap_def newline_def)

lemma parse_value_serialize:
  "plain v \<Longrightarrow> serialize w k v = Some t \<Longrightarrow> length t \<le> n \<Longrightarrow> delimited rest
     \<Longrightarrow> parse_value w n (t @ rest) = Some (json_image v, rest)"
proof (induction v arbitrary: k n rest t)
  case JUndefined
  then show ?case by simp
next
  case JNull
  then obtain m where "n = Suc m" by (cases n) auto
  with JNull show ?case using parse_value_literal(1) [of w m rest] by simp
next
  case (JBool b)
  then obtain m where "n = Suc m" by (cases n; cases b) auto
  with JBool show ?case
    using parse_value_literal(2) [of w m rest] parse_value_literal(3) [of w m rest]
    by (cases b) simp_all
next
  case (JNum x)
  show ?case
  proof (cases x)
    case (Finite q)
    with JNum.prems have safe: "safe_integer q" and t: "t = number_text w q" by simp_all
    from number_text_head [OF safe, of w] obtain c cs
      where head: "number_text w q = c # cs" "c = CHR ''-'' \<or> is_digit c" by blast
    from JNum.prems(3) t head obtain m where n: "n = Suc m" by (cases n) auto
    have "parse_value w (Suc m) (c # cs @ rest) = parse_number w (c # cs @ rest)"
      by (rule parse_value_number [OF head(2)])
    also have "\<dots> = parse_number w (number_text w q @ rest)" by (simp add: head(1))
    also have "\<dots> = Some (JNum (Finite q), rest)"
      by (rule parse_number_text [OF safe JNum.prems(4)])
    finally show ?thesis using Finite t head(1) n by simp
  next
    case NaN
    from JNum.prems(2,3) NaN obtain m where "n = Suc m" by (cases n) auto
    with JNum.prems(2) NaN show ?thesis using parse_value_literal(1) [of w m rest] by auto
  next
    case PosInfinity
    from JNum.prems(2,3) PosInfinity obtain m where "n = Suc m" by (cases n) auto
    with JNum.prems(2) PosInfinity show ?thesis using parse_value_literal(1) [of w m rest] by auto
  next
    case NegInfinity
    from JNum.prems(2,3) NegInfinity obtain m where "n = Suc m" by (cases n) auto
    with JNum.prems(2) NegInfinity show ?thesis using parse_value_literal(1) [of w m rest] by auto
  qed
next
  case (JStr s)
  then obtain m where n: "n = Suc m" by (cases n) (auto simp: QuoteJSONString_def)
  from JStr.prems(2) have t: "t @ rest = CHR 0x22 # concat (map escape s) @ CHR 0x22 # rest"
    by (auto simp: QuoteJSONString_def)
  show ?case
    unfolding t n parse_value_quote by (simp add: parse_chars_quoted)
next
  case (JArr xs)
  let ?elem = "\<lambda>x. case serialize w (Suc k) x of None \<Rightarrow> ''null'' | Some t \<Rightarrow> t"
  let ?sep = "CHR '','' # newline (Suc k)"
  let ?items = "map ?elem xs"
  from JArr.prems(2) have t: "t = wrap CHR ''['' CHR '']'' k ?items" by auto
  show ?case
  proof (cases "xs = []")
    case True
    with t have "t = ''[]''" by (simp add: wrap_def)
    moreover from this JArr.prems(3) obtain m where "n = Suc m" by (cases n) auto
    ultimately show ?thesis
      using True by (simp add: parse_value_bracket skip_ws_other is_ws_def)
  next
    case False
    then have items: "?items \<noteq> []" by simp
    from JArr.prems(1) have all: "list_all plain xs" by simp
    from wrap_length [OF items, of "CHR ''[''" "CHR '']''" k] t JArr.prems(3)
    obtain m where n: "n = Suc m" and m: "length (separated ?sep ?items) < m"
      by (cases n) auto
    have heads: "\<forall>t \<in> set ?items. \<exists>c cs. t = c # cs \<and> opens c"
    proof
      fix t
      assume "t \<in> set ?items"
      then obtain x where x: "x \<in> set xs" "t = ?elem x" by auto
      show "\<exists>c cs. t = c # cs \<and> opens c"
      proof (cases "serialize w (Suc k) x")
        case None
        with x show ?thesis by (simp add: opens_def is_ws_def)
      next
        case (Some u)
        from x(1) all have "plain x" by (simp add: list_all_iff)
        from serialize_head [OF this Some] Some x show ?thesis by simp
      qed
    qed
    let ?cs = "newline (Suc k) @ separated ?sep ?items @ newline k @ CHR '']'' # rest"
    from separated_head [OF items heads, of ?sep "newline k @ CHR '']'' # rest"]
    obtain c cs where head: "separated ?sep ?items @ newline k @ CHR '']'' # rest = c # cs"
      and "opens c" by blast
    then have skip: "skip_ws ?cs = c # cs" and c: "c \<noteq> CHR '']''"
      by (simp_all add: skip_ws_newline skip_ws_other opens_def)
    have elems: "parse_elements w m ?cs = Some (map json_image xs, rest)"
    proof (rule parse_elements_separated [OF _ all False m])
      fix x n rest t
      assume "x \<in> set xs" "serialize w (Suc k) x = Some t" "length t \<le> n" "delimited rest"
      moreover from this(1) all have "plain x" by (simp add: list_all_iff)
      ultimately show "parse_value w n (t @ rest) = Some (json_image x, rest)"
        by (intro JArr.IH)
    qed
    have "t @ rest = CHR ''['' # ?cs"
      using items by (simp add: t wrap_def)
    then show ?thesis
      unfolding n by (simp add: parse_value_bracket skip c elems)
  qed
next
  case (JObj kvs)
  let ?ps = "filter (\<lambda>kv. snd kv \<noteq> JUndefined) kvs"
  let ?member = "\<lambda>p. QuoteJSONString (fst p) @ '': '' @ the (serialize w (Suc k) (snd p))"
  let ?sep = "CHR '','' # newline (Suc k)"
  let ?items = "map ?member ?ps"
  from JObj.prems(2) have t: "t = wrap CHR ''{'' CHR ''}'' k ?items"
    by (auto simp: members_defined)
  from JObj.prems(1) have keys: "distinct (map fst kvs)" "sorted_wrt index_before (map fst kvs)"
    and all: "list_all (\<lambda>kv. plain (snd kv)) kvs"
    by simp_all
  show ?case
  proof (cases "?ps = []")
    case True
    with t have "t = ''{}''" by (simp add: wrap_def)
    moreover from this JObj.prems(3) obtain m where "n = Suc m" by (cases n) auto
    ultimately show ?thesis
      using True by (simp add: parse_value_brace skip_ws_other is_ws_def)
  next
    case False
    then have items: "?items \<noteq> []" by simp
    from wrap_length [OF items, of "CHR ''{''" "CHR ''}''" k] t JObj.prems(3)
    obtain m where n: "n = Suc m" and m: "length (separated ?sep ?items) < m"
      by (cases n) auto
    have heads: "\<forall>t \<in> set ?items. \<exists>c cs. t = c # cs \<and> opens c"
      by (auto simp: QuoteJSONString_def opens_def is_ws_def)
    let ?cs = "newline (Suc k) @ separated ?sep ?items @ newline k @ CHR ''}'' # rest"
    from separated_head [OF items heads, of ?sep "newline k @ CHR ''}'' # rest"]
    obtain c cs where head: "separated ?sep ?items @ newline k @ CHR ''}'' # rest = c # cs"
      and "opens c" by blast
    then have skip: "skip_ws ?cs = c # cs" and c: "c \<noteq> CHR ''}''"
      by (simp_all add: skip_ws_newline skip_ws_other opens_def)
    have defined: "list_all (\<lambda>p. snd p \<noteq> JUndefined) ?ps"
      by (simp add: list_all_iff)
    have members: "parse_members w m ?cs
        = Some (map (\<lambda>p. (fst p, json_image (snd p))) ?ps, rest)"
    proof (rule parse_members_separated [OF _ defined False m])
      fix p n rest t
      assume p: "p \<in> set ?ps" and "serialize w (Suc k) (snd p) = Some t" "length t \<le> n"
        "delimited rest"
      moreover from p all have "plain (snd p)" by (simp add: list_all_iff)
      moreover from p have "p \<in> set kvs" "snd p \<in> Basic_BNFs.snds p"
        by (auto simp: snds.simps)
      ultimately show "parse_value w n (t @ rest) = Some (json_image (snd p), rest)"
        by (intro JObj.IH)
    qed
    have "t @ rest = CHR ''{'' # ?cs"
      using items by (simp add: t wrap_def)
    with skip c members show ?thesis
      unfolding n
      by (simp add: parse_value_brace properties_read_back [OF keys])
  qed
qed

text \<open>The text of a value is read back as the image of the value.\<close>

lemma JSON_parse_stringify:
  assumes "plain v" and "JSON_stringify w v = Some t"
  shows "JSON_parse w t = Inr (json_image v)"
proof -
  have "parse_value w (Suc (length t)) (t @ []) = Some (json_image v, [])"
    using assms by (intro parse_value_serialize [of v w 0]) (simp_all add: JSON_stringify_def delimited_simps)
  then show ?thesis
    by (simp add: JSON_parse_def skip_ws_def)
qed

lemma json_image_value: "json_value v \<Longrightarrow> json_image v = v"
proof (induction v)
  case (JNum x)
  then show ?case by (cases x) simp_all
next
  case (JArr xs)
  then show ?case by (simp add: list_all_iff map_idI)
next
  case (JObj kvs)
  then have "\<forall>kv \<in> set kvs. snd kv \<noteq> JUndefined \<and> json_image (snd kv) = snd kv"
    by (auto simp: list_all_iff snds.simps)
  then have "filter (\<lambda>kv. snd kv \<noteq> JUndefined) kvs = kvs"
    and "map (\<lambda>kv. (fst kv, json_image (snd kv))) kvs = kvs"
    by (simp_all add: map_idI)
  then show ?case by simp
qed simp_all

end
